theory Spec2Isabelle
  imports Complex_Main "HOL-Library.Word" "HOL-Library.Sublist"
begin

unbundle bit_operations_syntax

section \<open>Machine types\<close>

type_synonym u8 = "8 word"
type_synonym i16 = "16 word"
type_synonym u64 = "64 word"

section \<open>The C library functions cmdline.c calls\<close>

text \<open>
  \<^verbatim>\<open>strstr(haystack, needle)\<close>: the suffix of the haystack that starts at the first
  occurrence of the needle, \<open>None\<close> for the null pointer.
\<close>

fun strstr :: "string \<Rightarrow> string \<Rightarrow> string option" where
  "strstr [] needle = (if needle = [] then Some [] else None)"
| "strstr (c # cs) needle =
     (if prefix needle (c # cs) then Some (c # cs) else strstr cs needle)"

definition isspace :: "char \<Rightarrow> bool" where
  "isspace c = (c = CHR '' '' \<or> (9 \<le> (of_char c :: nat) \<and> (of_char c :: nat) \<le> 13))"

definition isdigit :: "char \<Rightarrow> bool" where
  "isdigit c = (48 \<le> (of_char c :: nat) \<and> (of_char c :: nat) \<le> 57)"

fun digits :: "int \<Rightarrow> string \<Rightarrow> int" where
  "digits acc [] = acc"
| "digits acc (c # cs) =
     (if isdigit c then digits (10 * acc + (int (of_char c) - 48)) cs else acc)"

text \<open>
  \<^verbatim>\<open>atoi\<close>: leading white space, an optional sign, then decimal digits; the value
  here is the mathematical integer, the caller checks that it fits an \<^verbatim>\<open>int\<close>.
\<close>

definition atoi :: "string \<Rightarrow> int" where
  "atoi s =
     (case dropWhile isspace s of
        [] \<Rightarrow> 0
      | c # cs \<Rightarrow>
          if c = CHR ''-'' then - digits 0 cs
          else if c = CHR ''+'' then digits 0 cs
          else digits 0 (c # cs))"

text \<open>
  \<^verbatim>\<open>fgets(line, size, f)\<close> on the unread rest of a file: at most \<open>size - 1\<close>
  characters, stopping after a newline; \<open>None\<close> at end of file. The buffer is then
  used as a C string, which ends at the first NUL character read, if any.
\<close>

fun fgets_split :: "nat \<Rightarrow> string \<Rightarrow> string \<times> string" where
  "fgets_split 0 s = ([], s)"
| "fgets_split (Suc n) [] = ([], [])"
| "fgets_split (Suc n) (c # cs) =
     (if c = CHR 0x0A then ([c], cs)
      else (case fgets_split n cs of (l, r) \<Rightarrow> (c # l, r)))"

definition cstring :: "string \<Rightarrow> string" where
  "cstring buf = takeWhile (\<lambda>c. c \<noteq> CHR 0x00) buf"

definition fgets :: "nat \<Rightarrow> string \<Rightarrow> (string \<times> string) option" where
  "fgets n s =
     (if s = [] then None
      else case fgets_split (n - 1) s of (buf, rest) \<Rightarrow> Some (cstring buf, rest))"

lemma fgets_split_le: "length (snd (fgets_split n s)) \<le> length s"
  by (induction n s rule: fgets_split.induct) (auto intro: le_SucI split: prod.splits)

lemma fgets_split_less: "s \<noteq> [] \<Longrightarrow> length (snd (fgets_split (Suc n) s)) < length s"
  using fgets_split_le [of n "tl s"]
  by (cases s) (auto simp: less_Suc_eq_le split: prod.splits)

lemma fgets_split_append: "fst (fgets_split n s) @ snd (fgets_split n s) = s"
  by (induction n s rule: fgets_split.induct) (auto split: prod.splits)

text \<open>The lines that a loop \<^verbatim>\<open>while (fgets(line, 256, f) != NULL)\<close> sees, in order.\<close>

function readLines :: "string \<Rightarrow> string list" where
  "readLines s =
     (case fgets 256 s of None \<Rightarrow> [] | Some (line, rest) \<Rightarrow> line # readLines rest)"
  by pat_completeness auto
termination
proof (relation "measure length")
  show "wf (measure length)" by simp
next
  fix s :: string and x2 line rest
  assume "fgets 256 s = Some x2" and "(line, rest) = x2"
  then have "s \<noteq> []" and "rest = snd (fgets_split (Suc 254) s)"
    by (auto simp: fgets_def split: if_splits prod.splits)
  then show "(rest, s) \<in> measure length"
    using fgets_split_less [of s 254] by simp
qed

declare readLines.simps [simp del]

lemma readLines_unfold [code]:
  "readLines s =
     (if s = [] then []
      else case fgets_split 255 s of (buf, rest) \<Rightarrow> cstring buf # readLines rest)"
  by (subst readLines.simps) (simp add: fgets_def split: prod.splits)

section \<open>Bitboards\<close>

text \<open>
  Modelled from the spec: \<^verbatim>\<open>popcount\<close>, \<^verbatim>\<open>getlsb\<close> and \<^verbatim>\<open>poplsb\<close> are declared in
  bitboards.h, which is not part of the sources at hand. The spec calls them the
  population count, the least-significant-bit lookup and the least-significant-bit
  removal. The lookup has no result on the empty bitboard.
\<close>

definition popcount :: "u64 \<Rightarrow> nat" where
  "popcount bb = length (filter (bit bb) [0..<64])"

definition getlsb :: "u64 \<Rightarrow> nat option" where
  "getlsb bb = find (bit bb) [0..<64]"

definition poplsb :: "u64 \<Rightarrow> (nat \<times> u64) option" where
  "poplsb bb = (case getlsb bb of None \<Rightarrow> None | Some sq \<Rightarrow> Some (sq, unset_bit sq bb))"

lemma getlsb_Some_bit: "getlsb bb = Some sq \<Longrightarrow> bit bb sq \<and> sq < 64"
  by (auto simp: getlsb_def find_Some_iff)

lemma getlsb_None_iff: "getlsb bb = None \<longleftrightarrow> bb = 0"
  apply (auto simp: getlsb_def find_None_iff)
  apply (rule bit_eqI)
  apply (auto dest: bit_imp_le_length)
  done

lemma bits_set: "set (filter (bit (bb::u64)) [0..<64]) = {n. bit bb n}"
  by (auto dest: bit_imp_le_length)

lemma popcount_card: "popcount bb = card {n. bit bb n}"
proof -
  have "card (set (filter (bit bb) [0..<64])) = length (filter (bit bb) [0..<64])"
    by (rule distinct_card) simp
  then show ?thesis
    unfolding popcount_def bits_set by simp
qed

lemma popcount_le: "popcount bb \<le> 64"
  unfolding popcount_def
  by (metis diff_zero length_filter_le length_upt)

lemma popcount_unset_less:
  assumes "bit (bb::u64) sq"
  shows "popcount (unset_bit sq bb) < popcount bb"
proof -
  have sq: "sq \<in> set (filter (bit bb) [0..<64])"
    using assms by (auto dest: bit_imp_le_length)
  have "filter (bit (unset_bit sq bb)) [0..<64] =
        filter (\<lambda>n. n \<noteq> sq) (filter (bit bb) [0..<64])"
    by (auto simp: bit_unset_bit_iff intro: filter_cong)
  moreover have "length (filter (\<lambda>n. n \<noteq> sq) (filter (bit bb) [0..<64]))
                 < length (filter (bit bb) [0..<64])"
    using sq by (intro length_filter_less [of sq]) auto
  ultimately show ?thesis by (simp add: popcount_def)
qed

lemma poplsb_Some: "poplsb bb = Some (sq, bb') \<Longrightarrow> bit bb sq \<and> sq < 64 \<and> bb' = unset_bit sq bb"
  by (auto simp: poplsb_def split: option.splits dest: getlsb_Some_bit)

section \<open>The board, as far as cmdline.c reads it\<close>

datatype Colour = WHITE | BLACK

datatype PieceType = PAWN | KNIGHT | BISHOP | ROOK | QUEEN | KING

record Board =
  squares :: "nat \<Rightarrow> u8"
  pieces :: "PieceType \<Rightarrow> u64"
  colours :: "Colour \<Rightarrow> u64"
  kingAttackers :: u64
  turn :: int

section \<open>buildNNBook\<close>

text \<open>The fixed header of a training record, one field for each \<^verbatim>\<open>fwrite\<close>.\<close>

record Header =
  rec_occupancy :: u64
  rec_eval :: i16
  rec_result :: u8
  rec_turn :: u8
  rec_wksq :: u8
  rec_bksq :: u8
  rec_pieceCount :: u8

text \<open>What the run writes to \<^verbatim>\<open>output.nnbook\<close>, in order.\<close>

datatype chunk = Hdr Header | Body "u8 list"

text \<open>The ways in which a run leaves defined behaviour.\<close>

datatype fault = NullPointer | UndefinedLsb | OutOfBounds | IntOverflow

text \<open>
  Lines 238 to 241: \<^verbatim>\<open>result\<close> is declared without an initial value, \<open>uninit\<close> is
  whatever it holds; then the three tests run in the order of the source.
\<close>

definition scanResult :: "u8 \<Rightarrow> string \<Rightarrow> u8" where
  "scanResult uninit line =
     (let r0 = uninit;
          r1 = (if strstr line ''[0.0]'' \<noteq> None then 0 else r0);
          r2 = (if strstr line ''[0.5]'' \<noteq> None then 1 else r1);
          r3 = (if strstr line ''[1.0]'' \<noteq> None then 2 else r2)
      in r3)"

text \<open>
  Lines 223 to 249: everything up to the last \<^verbatim>\<open>fwrite\<close> of the fixed header.
  \<^verbatim>\<open>tail\<close> is null when the line has no \<^verbatim>\<open>"] "\<close>; \<^verbatim>\<open>atoi\<close> is undefined outside
  \<^verbatim>\<open>int\<close>; the conversions to \<^verbatim>\<open>int16_t\<close>, \<^verbatim>\<open>int8_t\<close> and \<^verbatim>\<open>uint8_t\<close> keep the low bits.
\<close>

definition nnHeader :: "Board \<Rightarrow> u8 \<Rightarrow> string \<Rightarrow> fault + Header" where
  "nnHeader board uninit line =
     (case strstr line ''] '' of
        None \<Rightarrow> Inl NullPointer
      | Some tail \<Rightarrow>
         (let v = atoi (drop (length ''] '') tail);
              white = colours board WHITE;
              black = colours board BLACK;
              pcs = white OR black
          in if v < - (2 ^ 31) \<or> 2 ^ 31 \<le> v then Inl IntOverflow
             else
              (case (getlsb (white AND pieces board KING),
                     getlsb (black AND pieces board KING)) of
                 (Some wk, Some bk) \<Rightarrow>
                    Inr \<lparr> rec_occupancy = pcs,
                          rec_eval = word_of_int v,
                          rec_result = scanResult uninit line,
                          rec_turn = word_of_int (turn board),
                          rec_wksq = of_nat wk,
                          rec_bksq = of_nat bk,
                          rec_pieceCount = of_nat (popcount pcs) \<rparr>
               | _ \<Rightarrow> Inl UndefinedLsb)))"

text \<open>
  The two macros of buildNNBook. \<^verbatim>\<open>pieceColour\<close> and \<^verbatim>\<open>pieceType\<close> come from a header
  that is not part of the sources at hand, so they are parameters \<open>pc\<close> and \<open>pt\<close>.
  The operands of \<^verbatim>\<open>pack_pieces\<close> are promoted to \<^verbatim>\<open>int\<close>; the store to a
  \<^verbatim>\<open>uint8_t\<close> keeps the low eight bits.
\<close>

definition encode_piece :: "(u8 \<Rightarrow> int) \<Rightarrow> (u8 \<Rightarrow> int) \<Rightarrow> u8 \<Rightarrow> int" where
  "encode_piece pc pt p = 8 * pc p + pt p"

definition pack_pieces :: "u8 \<Rightarrow> u8 \<Rightarrow> int" where
  "pack_pieces p1 p2 = push_bit 4 (uint p1) OR uint p2"

text \<open>
  Lines 251 to 254: the loop that empties \<^verbatim>\<open>pieces\<close> into \<^verbatim>\<open>types[32]\<close>; a store
  past the end of the array is a fault.
\<close>

function typesLoop ::
  "(u8 \<Rightarrow> int) \<Rightarrow> (u8 \<Rightarrow> int) \<Rightarrow> Board \<Rightarrow> u64 \<Rightarrow> nat \<Rightarrow> u8 list \<Rightarrow> fault + u8 list" where
  "typesLoop pc pt board pcs i types =
     (if pcs = 0 then Inr types
      else case poplsb pcs of
             None \<Rightarrow> Inl UndefinedLsb
           | Some (sq, pcs') \<Rightarrow>
               if i < length types
               then typesLoop pc pt board pcs' (Suc i)
                      (types[i := word_of_int (encode_piece pc pt (squares board sq))])
               else Inl OutOfBounds)"
  by pat_completeness auto
termination
  by (relation "measure (\<lambda>(pc, pt, board, pcs, i, types). popcount pcs)")
     (auto dest!: poplsb_Some intro: popcount_unset_less)

declare typesLoop.simps [simp del]

text \<open>
  Lines 235 to 236 and 251 to 259: the body. \<^verbatim>\<open>count\<close> is the byte written in the
  header; \<^verbatim>\<open>fwrite\<close> must not read past \<^verbatim>\<open>packed[16]\<close>.
\<close>

definition nnBody ::
  "(u8 \<Rightarrow> int) \<Rightarrow> (u8 \<Rightarrow> int) \<Rightarrow> Board \<Rightarrow> u64 \<Rightarrow> u8 \<Rightarrow> fault + u8 list" where
  "nnBody pc pt board pcs count =
     (case typesLoop pc pt board pcs 0 (replicate 32 0) of
        Inl e \<Rightarrow> Inl e
      | Inr types \<Rightarrow>
         (let packed = map (\<lambda>i. word_of_int (pack_pieces (types ! (i * 2)) (types ! (i * 2 + 1))))
                           [0..<16];
              n = (unat count + 1) div 2
          in if n \<le> 16 then Inr (take n packed) else Inl OutOfBounds))"

text \<open>One turn of the loop of buildNNBook, after \<^verbatim>\<open>boardFromFEN\<close>.\<close>

definition nnLine ::
  "(u8 \<Rightarrow> int) \<Rightarrow> (u8 \<Rightarrow> int) \<Rightarrow> Board \<Rightarrow> u8 \<Rightarrow> string \<Rightarrow> chunk list \<times> fault option" where
  "nnLine pc pt board uninit line =
     (case nnHeader board uninit line of
        Inl e \<Rightarrow> ([], Some e)
      | Inr h \<Rightarrow>
         (case nnBody pc pt board (rec_occupancy h) (rec_pieceCount h) of
            Inl e \<Rightarrow> ([Hdr h], Some e)
          | Inr bs \<Rightarrow> ([Hdr h, Body bs], None)))"

text \<open>
  The loop of buildNNBook over the lines read. \<open>parse\<close> stands for \<^verbatim>\<open>boardFromFEN\<close>,
  which rewrites the board of the thread in place; \<open>uninit k\<close> is what the variable
  \<^verbatim>\<open>result\<close> holds when turn \<open>k\<close> declares it. A fault ends the run with what was
  written before it.
\<close>

fun nnLoop ::
  "(u8 \<Rightarrow> int) \<Rightarrow> (u8 \<Rightarrow> int) \<Rightarrow> (Board \<Rightarrow> string \<Rightarrow> Board) \<Rightarrow> (nat \<Rightarrow> u8) \<Rightarrow>
   Board \<Rightarrow> nat \<Rightarrow> string list \<Rightarrow> chunk list \<times> fault option" where
  "nnLoop pc pt parse uninit board k [] = ([], None)"
| "nnLoop pc pt parse uninit board k (line # rest) =
     (case nnLine pc pt (parse board line) (uninit k) line of
        (out, Some e) \<Rightarrow> (out, Some e)
      | (out, None) \<Rightarrow>
         (case nnLoop pc pt parse uninit (parse board line) (Suc k) rest of
            (out', e) \<Rightarrow> (out @ out', e)))"

text \<open>
  buildNNBook: \<open>fin\<close> is the text of the book when \<^verbatim>\<open>fopen\<close> succeeds, \<open>fout\<close> says
  whether \<^verbatim>\<open>output.nnbook\<close> could be opened, \<open>board0\<close> is the board of the fresh
  thread. With a null output stream nothing is written: the run faults at the first
  \<^verbatim>\<open>fwrite\<close>, or before it in the header of the first line, or at \<^verbatim>\<open>fclose\<close>.
\<close>

definition buildNNBook ::
  "(u8 \<Rightarrow> int) \<Rightarrow> (u8 \<Rightarrow> int) \<Rightarrow> (Board \<Rightarrow> string \<Rightarrow> Board) \<Rightarrow> (nat \<Rightarrow> u8) \<Rightarrow>
   Board \<Rightarrow> string option \<Rightarrow> bool \<Rightarrow> chunk list \<times> fault option" where
  "buildNNBook pc pt parse uninit board0 fin fout =
     (case fin of
        None \<Rightarrow> ([], Some NullPointer)
      | Some content \<Rightarrow>
          if fout then nnLoop pc pt parse uninit board0 0 (readLines content)
          else (case readLines content of
                  [] \<Rightarrow> ([], Some NullPointer)
                | line # rest \<Rightarrow>
                   (case nnHeader (parse board0 line) (uninit 0) line of
                      Inl e \<Rightarrow> ([], Some e)
                    | Inr h \<Rightarrow> ([], Some NullPointer))))"

section \<open>handleCommandLine\<close>

text \<open>
  Modelled from the spec: \<^verbatim>\<open>strEquals\<close> is declared in uci.h, which is not part of the
  sources at hand; the spec routes on the command name, so it is equality of strings.
\<close>

definition strEquals :: "string \<Rightarrow> string \<Rightarrow> bool" where
  "strEquals a b = (a = b)"

text \<open>\<^verbatim>\<open>argv[i]\<close>: the argument, or the null pointer that ends the vector.\<close>

definition arg :: "string list \<Rightarrow> nat \<Rightarrow> string option" where
  "arg argv i = (if i < length argv then Some (argv ! i) else None)"

datatype pipeline =
    RunBenchmark "string list"
  | FilterBook "string option"
  | BuildNNBook "string option"
  | RunEvalBook "string list"
  | RunTuner

text \<open>What handleCommandLine does, in order; it has no output statement of its own.\<close>

datatype dispatch = Invoke pipeline | Exit int | Print string

definition EXIT_SUCCESS :: int where
  "EXIT_SUCCESS = 0"

text \<open>
  \<open>TUNE\<close> says whether the macro of that name is defined when the file is compiled.
  The empty list is the fall through: the function returns to its caller.
\<close>

definition handleCommandLine :: "bool \<Rightarrow> string list \<Rightarrow> dispatch list" where
  "handleCommandLine TUNE argv =
     (let argc = length argv in
      if argc > 1 \<and> strEquals (argv ! 1) ''bench''
        then [Invoke (RunBenchmark argv), Exit EXIT_SUCCESS]
      else if argc > 1 \<and> strEquals (argv ! 1) ''filter''
        then [Invoke (FilterBook (arg argv 2)), Exit EXIT_SUCCESS]
      else if argc > 1 \<and> strEquals (argv ! 1) ''nnbook''
        then [Invoke (BuildNNBook (arg argv 2)), Exit EXIT_SUCCESS]
      else if argc > 2 \<and> strEquals (argv ! 1) ''evalbook''
        then [Invoke (RunEvalBook argv), Exit EXIT_SUCCESS]
      else if TUNE then [Invoke RunTuner, Exit EXIT_SUCCESS]
      else [])"

section \<open>filterBook\<close>

text \<open>
  The engine behind the thread of filterBook: \<^verbatim>\<open>boardFromFEN\<close>, \<^verbatim>\<open>evaluateBoard\<close> and
  \<^verbatim>\<open>qsearch\<close> work on the thread, whose state is \<open>'e\<close>; \<open>e_board\<close> reads the board
  inside it.
\<close>

record 'e Engine =
  e_parse :: "'e \<Rightarrow> string \<Rightarrow> 'e"
  e_board :: "'e \<Rightarrow> Board"
  e_eval :: "'e \<Rightarrow> int \<times> 'e"
  e_qsearch :: "'e \<Rightarrow> int \<times> 'e"

text \<open>
  Lines 186 to 201, one turn of the loop: whether the line is printed, and the thread
  after the turn.
\<close>

definition filterLine :: "'e Engine \<Rightarrow> 'e \<Rightarrow> string \<Rightarrow> bool \<times> 'e" where
  "filterLine E s line =
     (let s1 = e_parse E s line;
          board = e_board E s1
      in if kingAttackers board \<noteq> 0 then (False, s1)
         else if popcount (colours board WHITE OR colours board BLACK) \<le> 6 then (False, s1)
         else (case e_eval E s1 of
                 (ev, s2) \<Rightarrow>
                   (case e_qsearch E s2 of
                      (qs, s3) \<Rightarrow> if ev \<noteq> qs then (False, s3) else (True, s3))))"

fun filterLoop :: "'e Engine \<Rightarrow> 'e \<Rightarrow> string list \<Rightarrow> string list \<times> 'e" where
  "filterLoop E s [] = ([], s)"
| "filterLoop E s (line # rest) =
     (case filterLine E s line of
        (keep, s') \<Rightarrow>
          (case filterLoop E s' rest of
             (out, s'') \<Rightarrow> (if keep then line # out else out, s'')))"

text \<open>
  filterBook: \<open>fin\<close> is the text of the book, or \<open>None\<close> when \<^verbatim>\<open>fopen\<close> gives the null
  pointer; the result is what \<^verbatim>\<open>printf\<close> wrote, line by line.
\<close>

definition filterBook :: "'e Engine \<Rightarrow> 'e \<Rightarrow> string option \<Rightarrow> fault + string list" where
  "filterBook E s0 fin =
     (case fin of
        None \<Rightarrow> Inl NullPointer
      | Some content \<Rightarrow> Inr (fst (filterLoop E s0 (readLines content))))"

text \<open>The thread before each line of a list, for stating what the loop does.\<close>

fun threadsBefore :: "'e Engine \<Rightarrow> 'e \<Rightarrow> string list \<Rightarrow> 'e list" where
  "threadsBefore E s [] = []"
| "threadsBefore E s (line # rest) = s # threadsBefore E (snd (filterLine E s line)) rest"

section \<open>runBenchmark and runEvalBook\<close>

type_synonym u16 = "16 word"

text \<open>The calls that a run makes to the engine, the clock and the terminal, in order.\<close>

datatype printed =
    Rule
  | BenchLine int int string string int int
  | Overall int int
  | Fen string
  | Time int

datatype call =
    InitTT int
  | GetRealTime
  | CreateThreadPool int
  | BoardFromFEN string
  | GetBestMove int
  | NodesSearched
  | ResetThreadPool
  | ClearTT
  | Printf printed
  | Free

text \<open>
  What a search leaves behind: the two moves, the array \<^verbatim>\<open>threads->info->values\<close>,
  whose capacity is fixed in a header that is not part of the sources at hand, and the
  node count of the pool.
\<close>

record SearchResult =
  sr_best :: u16
  sr_ponder :: u16
  sr_values :: "int list"
  sr_nodes :: u64

text \<open>
  The surroundings of a run. Times are of type \<^verbatim>\<open>double\<close>; they stay abstract, with
  the k-th reading of the clock \<open>w_now k\<close>, the subtraction \<open>w_tsub\<close>, the expression
  \<^verbatim>\<open>(int)(1000.0f * n / (t + 1))\<close> as \<open>w_nps\<close> and \<^verbatim>\<open>(int)t\<close> as \<open>w_ms\<close>.
  \<open>w_search i\<close> is what the i-th search of the run leaves behind.
\<close>

record 't World =
  w_now :: "nat \<Rightarrow> 't"
  w_tsub :: "'t \<Rightarrow> 't \<Rightarrow> 't"
  w_nps :: "u64 \<Rightarrow> 't \<Rightarrow> int"
  w_ms :: "'t \<Rightarrow> int"
  w_search :: "nat \<Rightarrow> SearchResult"
  w_moveToString :: "u16 \<Rightarrow> string"

text \<open>The five arrays of capacity 256 of runBenchmark.\<close>

record 't Stats =
  scores :: "nat \<Rightarrow> int"
  times :: "nat \<Rightarrow> 't"
  nodes :: "nat \<Rightarrow> u64"
  bestMoves :: "nat \<Rightarrow> u16"
  ponderMoves :: "nat \<Rightarrow> u16"

definition capacity :: nat where
  "capacity = 256"

text \<open>An argument read with \<^verbatim>\<open>atoi\<close>, or the default.\<close>

definition argInt :: "string list \<Rightarrow> nat \<Rightarrow> int \<Rightarrow> fault + int" where
  "argInt argv k dflt =
     (if length argv > k
      then (let v = atoi (argv ! k)
            in if v < - (2 ^ 31) \<or> 2 ^ 31 \<le> v then Inl IntOverflow else Inr v)
      else Inr dflt)"

text \<open>\<^verbatim>\<open>(int)x\<close> for a \<^verbatim>\<open>uint64_t\<close>: the low 32 bits, read as signed.\<close>

definition int_of_u64 :: "u64 \<Rightarrow> int" where
  "int_of_u64 x = sint (ucast x :: 32 word)"

text \<open>
  Lines 103 to 116, the search loop from index \<open>i\<close> on, over the rest of
  \<^verbatim>\<open>Benchmarks\<close>. The result is the calls made, the arrays, and the fault if an index
  left its array.
\<close>

fun benchSearch ::
  "'t World \<Rightarrow> int \<Rightarrow> nat \<Rightarrow> string list \<Rightarrow> 't Stats \<Rightarrow> call list \<times> 't Stats \<times> fault option" where
  "benchSearch W depth i [] st = ([], st, Some OutOfBounds)"
| "benchSearch W depth i (b # bs) st =
     (if b = [] then ([], st, None)
      else if \<not> i < capacity
        then ([GetRealTime, BoardFromFEN b, GetBestMove depth], st, Some OutOfBounds)
      else
        (let r = w_search W i;
             st1 = st\<lparr> bestMoves := (bestMoves st)(i := sr_best r),
                       ponderMoves := (ponderMoves st)(i := sr_ponder r) \<rparr>
         in if depth < 0 \<or> \<not> nat depth < length (sr_values r)
            then ([GetRealTime, BoardFromFEN b, GetBestMove depth], st1, Some OutOfBounds)
            else
              (let st2 = st1\<lparr> scores := (scores st1)(i := sr_values r ! nat depth),
                              times := (times st1)
                                 (i := w_tsub W (w_now W (2 * i + 2)) (w_now W (2 * i + 1))),
                              nodes := (nodes st1)(i := sr_nodes r) \<rparr>
               in case benchSearch W depth (Suc i) bs st2 of
                    (cs, st', f) \<Rightarrow>
                      ([GetRealTime, BoardFromFEN b, GetBestMove depth, GetRealTime,
                        NodesSearched, ClearTT] @ cs, st', f))))"

text \<open>Lines 120 to 130, the loop that prints one line for each position.\<close>

fun benchReport ::
  "'t World \<Rightarrow> nat \<Rightarrow> string list \<Rightarrow> 't Stats \<Rightarrow> call list \<times> fault option" where
  "benchReport W i [] st = ([], Some OutOfBounds)"
| "benchReport W i (b # bs) st =
     (if b = [] then ([], None)
      else if \<not> i < capacity then ([], Some OutOfBounds)
      else (case benchReport W (Suc i) bs st of
              (cs, f) \<Rightarrow>
                (Printf (BenchLine (int i + 1) (scores st i)
                           (w_moveToString W (bestMoves st i))
                           (w_moveToString W (ponderMoves st i))
                           (int_of_u64 (nodes st i))
                           (w_nps W (nodes st i) (times st i))) # cs, f)))"

text \<open>Line 136, the loop that adds the node counts.\<close>

fun benchTotal :: "nat \<Rightarrow> string list \<Rightarrow> 't Stats \<Rightarrow> u64 \<Rightarrow> fault + u64" where
  "benchTotal i [] st totalNodes = Inl OutOfBounds"
| "benchTotal i (b # bs) st totalNodes =
     (if b = [] then Inr totalNodes
      else if \<not> i < capacity then Inl OutOfBounds
      else benchTotal (Suc i) bs st (totalNodes + nodes st i))"

text \<open>
  runBenchmark: \<open>bench\<close> is the content of bench.csv, compiled in before the empty
  string; \<open>st0\<close> is what the arrays hold when they are declared.
\<close>

definition benchArgs :: "string list \<Rightarrow> fault + int \<times> int \<times> int" where
  "benchArgs argv =
     (case argInt argv 2 13 of
        Inl e \<Rightarrow> Inl e
      | Inr depth \<Rightarrow>
         (case argInt argv 3 1 of
            Inl e \<Rightarrow> Inl e
          | Inr nthreads \<Rightarrow>
             (case argInt argv 4 16 of
                Inl e \<Rightarrow> Inl e
              | Inr megabytes \<Rightarrow> Inr (depth, nthreads, megabytes))))"

definition runBenchmark ::
  "'t World \<Rightarrow> 't Stats \<Rightarrow> string list \<Rightarrow> string list \<Rightarrow> call list \<times> fault option" where
  "runBenchmark W st0 bench argv =
     (case benchArgs argv of
        Inl e \<Rightarrow> ([], Some e)
      | Inr (depth, nthreads, megabytes) \<Rightarrow>
         (let Benchmarks = bench @ [[]];
              init = [InitTT megabytes, GetRealTime, CreateThreadPool nthreads]
          in (case benchSearch W depth 0 Benchmarks st0 of
                (cs1, st, Some e) \<Rightarrow> (init @ cs1, Some e)
              | (cs1, st, None) \<Rightarrow>
                 (case benchReport W 0 Benchmarks st of
                    (cs2, Some e) \<Rightarrow> (init @ cs1 @ [Printf Rule] @ cs2, Some e)
                  | (cs2, None) \<Rightarrow>
                     (case benchTotal 0 Benchmarks st 0 of
                        Inl e \<Rightarrow>
                          (init @ cs1 @ [Printf Rule] @ cs2 @ [Printf Rule, GetRealTime], Some e)
                      | Inr totalNodes \<Rightarrow>
                          (init @ cs1 @ [Printf Rule] @ cs2 @
                           [Printf Rule, GetRealTime,
                            Printf (Overall (int_of_u64 totalNodes)
                               (w_nps W totalNodes
                                  (w_tsub W
                                     (w_now W (2 * length (takeWhile (\<lambda>b. b \<noteq> []) Benchmarks) + 1))
                                     (w_now W 0)))),
                            Free], None))))))"

text \<open>Lines 162 to 168, the loop of runEvalBook over the lines read.\<close>

fun evalLoop :: "int \<Rightarrow> string list \<Rightarrow> call list" where
  "evalLoop depth [] = []"
| "evalLoop depth (line # rest) =
     [GetRealTime, BoardFromFEN line, GetBestMove depth, ResetThreadPool, ClearTT,
      Printf (Fen line)] @ evalLoop depth rest"

text \<open>runEvalBook: \<open>book\<close> is the text behind \<^verbatim>\<open>fopen(argv[2], "r")\<close>, if it opens.\<close>

definition evalArgs :: "string list \<Rightarrow> fault + int \<times> int \<times> int" where
  "evalArgs argv =
     (case argInt argv 3 12 of
        Inl e \<Rightarrow> Inl e
      | Inr depth \<Rightarrow>
         (case argInt argv 4 1 of
            Inl e \<Rightarrow> Inl e
          | Inr nthreads \<Rightarrow>
             (case argInt argv 5 2 of
                Inl e \<Rightarrow> Inl e
              | Inr megabytes \<Rightarrow> Inr (depth, nthreads, megabytes))))"

definition runEvalBook ::
  "'t World \<Rightarrow> string option \<Rightarrow> string list \<Rightarrow> call list \<times> fault option" where
  "runEvalBook W book argv =
     (case evalArgs argv of
        Inl e \<Rightarrow> ([GetRealTime], Some e)
      | Inr (depth, nthreads, megabytes) \<Rightarrow>
         (let init = [GetRealTime, CreateThreadPool nthreads, InitTT megabytes]
          in (case book of
                None \<Rightarrow> (init, Some NullPointer)
              | Some content \<Rightarrow>
                  (init @ evalLoop depth (readLines content) @
                   [GetRealTime,
                    Printf (Time (w_ms W (w_tsub W (w_now W (length (readLines content) + 1))
                                                    (w_now W 0))))],
                   None))))"

section \<open>The discipline of the transposition table, on a list of calls\<close>

text \<open>
  \<open>clearsFirst cs\<close>: in \<open>cs\<close> the table is cleared before it is initialised again and
  before the next position is parsed or searched. \<open>clearedAfterSearch\<close>: that holds
  after every search. \<open>resetsFirst\<close> and \<open>resetAfterSearch\<close>: the same for the reset
  of the thread pool before the next position. \<open>ttDiscipline\<close>: one initialisation,
  no search before it, and a clear after every search.
\<close>

definition isInitTT :: "call \<Rightarrow> bool" where
  "isInitTT c = (case c of InitTT mb \<Rightarrow> True | _ \<Rightarrow> False)"

definition isSearch :: "call \<Rightarrow> bool" where
  "isSearch c = (case c of GetBestMove d \<Rightarrow> True | _ \<Rightarrow> False)"

definition startsPosition :: "call \<Rightarrow> bool" where
  "startsPosition c = (case c of BoardFromFEN fen \<Rightarrow> True | GetBestMove d \<Rightarrow> True | _ \<Rightarrow> False)"

fun clearsFirst :: "call list \<Rightarrow> bool" where
  "clearsFirst [] = False"
| "clearsFirst (c # cs) = (c = ClearTT \<or> (\<not> isInitTT c \<and> \<not> startsPosition c \<and> clearsFirst cs))"

fun clearedAfterSearch :: "call list \<Rightarrow> bool" where
  "clearedAfterSearch [] = True"
| "clearedAfterSearch (c # cs) = ((if isSearch c then clearsFirst cs else True) \<and> clearedAfterSearch cs)"

fun resetsFirst :: "call list \<Rightarrow> bool" where
  "resetsFirst [] = False"
| "resetsFirst (c # cs) = (c = ResetThreadPool \<or> (\<not> startsPosition c \<and> resetsFirst cs))"

fun resetAfterSearch :: "call list \<Rightarrow> bool" where
  "resetAfterSearch [] = True"
| "resetAfterSearch (c # cs) = ((if isSearch c then resetsFirst cs else True) \<and> resetAfterSearch cs)"

definition ttDiscipline :: "call list \<Rightarrow> bool" where
  "ttDiscipline tr =
     (length (filter isInitTT tr) = 1 \<and>
      \<not> list_ex isSearch (takeWhile (\<lambda>c. \<not> isInitTT c) tr) \<and>
      clearedAfterSearch tr)"

text \<open>The calls of one turn of the search loop of runBenchmark.\<close>

definition block :: "int \<Rightarrow> string \<Rightarrow> call list" where
  "block depth b = [GetRealTime, BoardFromFEN b, GetBestMove depth, GetRealTime, NodesSearched, ClearTT]"

section \<open>The nodes per second of runBenchmark\<close>






section \<open>Example inputs\<close>

text \<open>
  The position \<^verbatim>\<open>8/8/8/8/8/8/N7/K1k5\<close>: white king on a1, black king on c1, white
  knight on a2, with pieces numbered four times the type plus the colour.
\<close>

definition exampleBoard :: Board where
  "exampleBoard =
     \<lparr> squares = (\<lambda>sq. if sq = 0 then 20 else if sq = 2 then 21 else if sq = 8 then 4 else 26),
       pieces = (\<lambda>t. case t of KING \<Rightarrow> 5 | KNIGHT \<Rightarrow> 256 | _ \<Rightarrow> 0),
       colours = (\<lambda>c. case c of WHITE \<Rightarrow> 257 | BLACK \<Rightarrow> 4),
       kingAttackers = 0,
       turn = 0 \<rparr>"

definition examplePc :: "u8 \<Rightarrow> int" where
  "examplePc p = uint p mod 4"

definition examplePt :: "u8 \<Rightarrow> int" where
  "examplePt p = uint p div 4"

definition exampleLine :: string where
  "exampleLine = ''8/8/8/8/8/8/N7/K1k5 w - - 0 1 [1.0] 35'' @ [CHR 0x0A]"

definition exampleHeader :: Header where
  "exampleHeader =
     \<lparr> rec_occupancy = 261, rec_eval = 35, rec_result = 2, rec_turn = 0,
       rec_wksq = 0, rec_bksq = 2, rec_pieceCount = 3 \<rparr>"




text \<open>
  The position \<^verbatim>\<open>7k/8/8/8/PPPPPPPP/PPPPPPPP/PPPPPPPP/KPPPPPPP\<close>: 33 pieces, one more
  than a game of chess can have.
\<close>

definition crowdedBoard :: Board where
  "crowdedBoard =
     \<lparr> squares = (\<lambda>sq. if sq = 0 then 20 else if sq = 63 then 21 else if sq < 32 then 0 else 26),
       pieces = (\<lambda>t. case t of KING \<Rightarrow> 0x8000000000000001 | PAWN \<Rightarrow> 0xFFFFFFFE | _ \<Rightarrow> 0),
       colours = (\<lambda>c. case c of WHITE \<Rightarrow> 0xFFFFFFFF | BLACK \<Rightarrow> 0x8000000000000000),
       kingAttackers = 0,
       turn = 0 \<rparr>"

definition crowdedLine :: string where
  "crowdedLine = ''7k/8/8/8/PPPPPPPP/PPPPPPPP/PPPPPPPP/KPPPPPPP w - - 0 1 [0.5] 0'' @ [CHR 0x0A]"

definition crowdedHeader :: Header where
  "crowdedHeader =
     \<lparr> rec_occupancy = 0x80000000FFFFFFFF, rec_eval = 0, rec_result = 1, rec_turn = 0,
       rec_wksq = 0, rec_bksq = 63, rec_pieceCount = 33 \<rparr>"

text \<open>
  The position \<^verbatim>\<open>4k3/pppppppp/8/8/8/8/PPPPPPPP/4K3\<close>, eighteen pieces, nobody in
  check, and an engine for which every position is quiet.
\<close>

definition quietBoard :: Board where
  "quietBoard =
     \<lparr> squares = (\<lambda>sq. 26),
       pieces = (\<lambda>t. case t of KING \<Rightarrow> 0x1000000000000010 | PAWN \<Rightarrow> 0x00FF00000000FF00 | _ \<Rightarrow> 0),
       colours = (\<lambda>c. case c of WHITE \<Rightarrow> 0xFF10 | BLACK \<Rightarrow> 0x10FF000000000000),
       kingAttackers = 0,
       turn = 0 \<rparr>"

definition exampleEngine :: "Board Engine" where
  "exampleEngine =
     \<lparr> e_parse = (\<lambda>s line. if prefix ''4k3'' line then quietBoard else exampleBoard),
       e_board = (\<lambda>s. s),
       e_eval = (\<lambda>s. (10, s)),
       e_qsearch = (\<lambda>s. (10, s)) \<rparr>"

definition quietLine :: string where
  "quietLine = ''4k3/pppppppp/8/8/8/8/PPPPPPPP/4K3 w - - 0 1 [0.5] 0'' @ [CHR 0x0A]"

definition exampleBook :: string where
  "exampleBook = exampleLine @ quietLine"

text \<open>
  A world for the two runs: the clock reads ten more each time, every search leaves
  the same moves, 128 values and 20 nodes. Its \<open>w_nps\<close> is a stand-in on integers,
  not the floating point expression.
\<close>

definition exampleWorld :: "int World" where
  "exampleWorld =
     \<lparr> w_now = (\<lambda>k. 10 * int k),
       w_tsub = (\<lambda>a b. a - b),
       w_nps = (\<lambda>n t. 1000 * uint n div (t + 1)),
       w_ms = (\<lambda>t. t),
       w_search = (\<lambda>i. \<lparr> sr_best = 796, sr_ponder = 3364, sr_values = replicate 128 25,
                          sr_nodes = 20 \<rparr>),
       w_moveToString = (\<lambda>m. ''e2e4'') \<rparr>"

definition exampleStats :: "int Stats" where
  "exampleStats =
     \<lparr> scores = (\<lambda>i. 0), times = (\<lambda>i. 0), nodes = (\<lambda>i. 0),
       bestMoves = (\<lambda>i. 0), ponderMoves = (\<lambda>i. 0) \<rparr>"

definition startFen :: string where
  "startFen = ''rnbqkbnr/pppppppp/8/8/8/8/PPPPPPPP/RNBQKBNR w KQkq - 0 1''"


definition exampleBenchTrace :: "call list" where
  "exampleBenchTrace =
     [InitTT 16, GetRealTime, CreateThreadPool 1,
      GetRealTime, BoardFromFEN startFen, GetBestMove 1, GetRealTime, NodesSearched, ClearTT,
      GetRealTime, BoardFromFEN startFen, GetBestMove 1, GetRealTime, NodesSearched, ClearTT,
      Printf Rule,
      Printf (BenchLine 1 25 ''e2e4'' ''e2e4'' 20 1818),
      Printf (BenchLine 2 25 ''e2e4'' ''e2e4'' 20 1818),
      Printf Rule, GetRealTime, Printf (Overall 40 784), Free]"

definition exampleEvalTrace :: "call list" where
  "exampleEvalTrace =
     [GetRealTime, CreateThreadPool 1, InitTT 2,
      GetRealTime, BoardFromFEN exampleLine, GetBestMove 2, ResetThreadPool, ClearTT,
      Printf (Fen exampleLine),
      GetRealTime, BoardFromFEN quietLine, GetBestMove 2, ResetThreadPool, ClearTT,
      Printf (Fen quietLine),
      GetRealTime, Printf (Time 30)]"




section \<open>Properties of buildNNBook\<close>

lemma strstr_sublist: "strstr line m \<noteq> None \<longleftrightarrow> sublist m line"
  by (induction line) (auto simp: sublist_Cons_right)


lemma nnHeader_Inr:
  assumes "nnHeader board uninit line = Inr h"
  shows "rec_occupancy h = colours board WHITE OR colours board BLACK"
    and "rec_pieceCount h = of_nat (popcount (colours board WHITE OR colours board BLACK))"
    and "rec_result h = scanResult uninit line"
    and "\<exists>tail. strstr line ''] '' = Some tail \<and> rec_eval h = word_of_int (atoi (drop 2 tail))"
  using assms
  by (auto simp: nnHeader_def Let_def numeral_2_eq_2 split: option.splits if_splits prod.splits)

lemma unat_popcount: "unat (of_nat (popcount bb) :: u8) = popcount bb"
  using popcount_le [of bb] by (simp add: unat_of_nat)

lemma nnHeader_count:
  "nnHeader board uninit line = Inr h \<Longrightarrow> unat (rec_pieceCount h) = popcount (rec_occupancy h)"
  by (simp add: nnHeader_Inr unat_popcount)

lemma nnLine_Hdr:
  "nnLine pc pt board uninit line = (out, e) \<Longrightarrow> Hdr h \<in> set out \<Longrightarrow>
   nnHeader board uninit line = Inr h"
  by (auto simp: nnLine_def split: sum.splits)

lemma nnLoop_Hdr:
  "Hdr h \<in> set (fst (nnLoop pc pt parse uninit board k lines)) \<Longrightarrow>
   \<exists>pre line. prefix (pre @ [line]) lines \<and>
      nnHeader (foldl parse board (pre @ [line])) (uninit (k + length pre)) line = Inr h"
proof (induction lines arbitrary: board k)
  case Nil
  then show ?case by simp
next
  case (Cons l ls)
  obtain out e where line: "nnLine pc pt (parse board l) (uninit k) l = (out, e)"
    by (cases "nnLine pc pt (parse board l) (uninit k) l")
  show ?case
  proof (cases "Hdr h \<in> set out")
    case True
    then have "nnHeader (parse board l) (uninit k) l = Inr h"
      using line by (rule nnLine_Hdr [rotated])
    then have "prefix ([] @ [l]) (l # ls) \<and>
        nnHeader (foldl parse board ([] @ [l])) (uninit (k + length ([]::string list))) l = Inr h"
      by simp
    then show ?thesis by blast
  next
    case False
    with Cons.prems line
    have "Hdr h \<in> set (fst (nnLoop pc pt parse uninit (parse board l) (Suc k) ls))"
      by (auto split: option.splits prod.splits)
    from Cons.IH [OF this] obtain pre line where
      p: "prefix (pre @ [line]) ls" and
      h: "nnHeader (foldl parse (parse board l) (pre @ [line])) (uninit (Suc k + length pre)) line = Inr h"
      by blast
    have "prefix ((l # pre) @ [line]) (l # ls) \<and>
        nnHeader (foldl parse board ((l # pre) @ [line])) (uninit (k + length (l # pre))) line = Inr h"
      using p h by simp
    then show ?thesis by blast
  qed
qed

text \<open>
  Where the line has a \<^verbatim>\<open>"] "\<close>, the number after it fits an \<^verbatim>\<open>int\<close> and both kings
  are on the board, the header is written.
\<close>

lemma nnHeader_total:
  assumes "sublist ''] '' line"
    and "\<forall>tail. strstr line ''] '' = Some tail \<longrightarrow>
           - (2 ^ 31) \<le> atoi (drop 2 tail) \<and> atoi (drop 2 tail) < 2 ^ 31"
    and "colours board WHITE AND pieces board KING \<noteq> 0"
    and "colours board BLACK AND pieces board KING \<noteq> 0"
  shows "\<exists>h. nnHeader board uninit line = Inr h"
proof -
  from assms(1) obtain tail where t: "strstr line ''] '' = Some tail"
    using strstr_sublist [of line "''] ''"] by auto
  from assms(3,4) obtain wk bk where
    "getlsb (colours board WHITE AND pieces board KING) = Some wk"
    "getlsb (colours board BLACK AND pieces board KING) = Some bk"
    using getlsb_None_iff by (metis not_Some_eq)
  then show ?thesis
    using t assms(2) by (auto simp: nnHeader_def Let_def numeral_2_eq_2)
qed

text \<open>
  C1: in every training record that buildNNBook emits, the piece count byte is the
  number of set bits of the occupancy written in the same record, and that occupancy
  is the union of the two colour bitboards of the board parsed from the record's line
  (the value \<^verbatim>\<open>pieces\<close> has before the loop removes any bit).
\<close>

theorem nnbook_pieceCount_is_popcount:
  assumes "Hdr h \<in> set (fst (buildNNBook pc pt parse uninit board0 fin fout))"
  shows "unat (rec_pieceCount h) = card {n. bit (rec_occupancy h) n} \<and>
         (\<exists>content pre line. fin = Some content \<and> prefix (pre @ [line]) (readLines content) \<and>
            rec_occupancy h = colours (foldl parse board0 (pre @ [line])) WHITE
                              OR colours (foldl parse board0 (pre @ [line])) BLACK)"
proof -
  from assms obtain content where fin: "fin = Some content"
    and loop: "Hdr h \<in> set (fst (nnLoop pc pt parse uninit board0 0 (readLines content)))"
    by (auto simp: buildNNBook_def split: option.splits if_splits list.splits sum.splits)
  from nnLoop_Hdr [OF loop] obtain pre line where
    p: "prefix (pre @ [line]) (readLines content)" and
    h: "nnHeader (foldl parse board0 (pre @ [line])) (uninit (0 + length pre)) line = Inr h"
    by blast
  have "unat (rec_pieceCount h) = card {n. bit (rec_occupancy h) n}"
    using nnHeader_count [OF h] by (simp add: popcount_card)
  moreover have "rec_occupancy h = colours (foldl parse board0 (pre @ [line])) WHITE
                              OR colours (foldl parse board0 (pre @ [line])) BLACK"
    using nnHeader_Inr(1) [OF h] .
  ultimately show ?thesis using fin p by blast
qed


theorem nnbook_pieceCount_is_popcount_witness:
  "Hdr exampleHeader \<in> set (fst (buildNNBook examplePc examplePt (\<lambda>b l. exampleBoard)
       (\<lambda>k. 77) exampleBoard (Some (exampleLine @ exampleLine)) True)) \<and>
   unat (rec_pieceCount exampleHeader) = card {n. bit (rec_occupancy exampleHeader) n}"
proof -
  have h: "Hdr exampleHeader \<in> set (fst (buildNNBook examplePc examplePt (\<lambda>b l. exampleBoard)
       (\<lambda>k. 77) exampleBoard (Some (exampleLine @ exampleLine)) True))"
    by code_simp
  from nnbook_pieceCount_is_popcount [OF h] h show ?thesis by blast
qed





lemma find_filter_head:
  "find P xs = Some s \<Longrightarrow> distinct xs \<Longrightarrow> filter P xs = s # filter (\<lambda>x. P x \<and> x \<noteq> s) xs"
proof (induction xs)
  case Nil
  then show ?case by simp
next
  case (Cons x xs)
  show ?case
  proof (cases "P x")
    case True
    with Cons.prems have "s = x" and "x \<notin> set xs" by auto
    then have "filter (\<lambda>y. P y \<and> y \<noteq> s) xs = filter P xs"
      by (auto intro: filter_cong)
    with True \<open>s = x\<close> show ?thesis by simp
  next
    case False
    with Cons show ?thesis by auto
  qed
qed

lemma poplsb_step:
  assumes "pcs \<noteq> 0"
  shows "\<exists>sq. poplsb pcs = Some (sq, unset_bit sq pcs) \<and>
              filter (bit pcs) [0..<64] = sq # filter (bit (unset_bit sq pcs)) [0..<64] \<and>
              popcount pcs = Suc (popcount (unset_bit sq pcs))"
proof -
  from assms obtain sq where g: "getlsb pcs = Some sq"
    using getlsb_None_iff [of pcs] by auto
  then have "filter (bit pcs) [0..<64] = sq # filter (\<lambda>x. bit pcs x \<and> x \<noteq> sq) [0..<64]"
    unfolding getlsb_def by (intro find_filter_head) auto
  moreover have "filter (\<lambda>x. bit pcs x \<and> x \<noteq> sq) [0..<64] = filter (bit (unset_bit sq pcs)) [0..<64]"
    by (auto simp: bit_unset_bit_iff intro: filter_cong)
  ultimately have f: "filter (bit pcs) [0..<64] = sq # filter (bit (unset_bit sq pcs)) [0..<64]"
    by simp
  then have "popcount pcs = Suc (popcount (unset_bit sq pcs))"
    by (simp add: popcount_def)
  with g f show ?thesis by (auto simp: poplsb_def)
qed

lemma popcount_0_iff: "popcount pcs = 0 \<longleftrightarrow> pcs = 0"
  using getlsb_None_iff [of pcs]
  by (auto simp: popcount_def getlsb_def find_None_iff filter_empty_conv)

lemma typesLoop_spec:
  "length types = 32 \<Longrightarrow> i + popcount pcs \<le> 32 \<Longrightarrow>
   typesLoop pc pt board pcs i types =
     Inr (take i types @
          map (\<lambda>sq. word_of_int (encode_piece pc pt (squares board sq))) (filter (bit pcs) [0..<64]) @
          drop (i + popcount pcs) types)"
proof (induction pc pt board pcs i types rule: typesLoop.induct)
  case (1 pc pt board pcs i types)
  show ?case
  proof (cases "pcs = 0")
    case True
    then show ?thesis
      by (subst typesLoop.simps) (simp add: popcount_def)
  next
    case False
    from poplsb_step [OF False] obtain sq where
      p: "poplsb pcs = Some (sq, unset_bit sq pcs)" and
      f: "filter (bit pcs) [0..<64] = sq # filter (bit (unset_bit sq pcs)) [0..<64]" and
      c: "popcount pcs = Suc (popcount (unset_bit sq pcs))" by blast
    from c "1.prems" have i: "i < length types" by simp
    let ?v = "word_of_int (encode_piece pc pt (squares board sq)) :: u8"
    have "typesLoop pc pt board (unset_bit sq pcs) (Suc i) (types[i := ?v]) =
          Inr (take (Suc i) (types[i := ?v]) @
          map (\<lambda>sq. word_of_int (encode_piece pc pt (squares board sq)))
              (filter (bit (unset_bit sq pcs)) [0..<64]) @
          drop (Suc i + popcount (unset_bit sq pcs)) (types[i := ?v]))"
      using "1.prems" c i by (intro "1.IH" [OF False p refl i]) simp_all
    moreover have "take (Suc i) (types[i := ?v]) = take i types @ [?v]"
      using i by (simp add: take_Suc_conv_app_nth)
    ultimately show ?thesis
      using False p i f c by (subst typesLoop.simps) simp
  qed
qed

lemma typesLoop_overflow:
  "length types = 32 \<Longrightarrow> i \<le> 32 \<Longrightarrow> 32 < i + popcount pcs \<Longrightarrow>
   typesLoop pc pt board pcs i types = Inl OutOfBounds"
proof (induction pc pt board pcs i types rule: typesLoop.induct)
  case (1 pc pt board pcs i types)
  from "1.prems" have nz: "pcs \<noteq> 0" using popcount_0_iff [of pcs] by auto
  from poplsb_step [OF nz] obtain sq where
      p: "poplsb pcs = Some (sq, unset_bit sq pcs)" and
      c: "popcount pcs = Suc (popcount (unset_bit sq pcs))" by blast
  show ?case
  proof (cases "i < length types")
    case True
    let ?v = "word_of_int (encode_piece pc pt (squares board sq)) :: u8"
    have "typesLoop pc pt board (unset_bit sq pcs) (Suc i) (types[i := ?v]) = Inl OutOfBounds"
      using "1.prems" c True by (intro "1.IH" [OF nz p refl True]) simp_all
    then show ?thesis using nz p True by (subst typesLoop.simps) simp
  next
    case False
    then show ?thesis using nz p by (subst typesLoop.simps) simp
  qed
qed

lemma or_nibbles:
  assumes "0 \<le> (b::int)" "b < 16"
  shows "push_bit 4 a OR b = 16 * a + b"
proof -
  have b: "take_bit 4 b = b" using assms by (simp add: take_bit_int_eq_self)
  have "push_bit 4 a + take_bit 4 b = push_bit 4 a OR take_bit 4 b"
    by (rule disjunctive_add) (auto simp: bit_push_bit_iff bit_take_bit_iff)
  then show ?thesis by (simp add: b push_bit_eq_mult)
qed

lemma uint_u8_of_int: "0 \<le> k \<Longrightarrow> k < 256 \<Longrightarrow> uint (word_of_int k :: u8) = k"
  by (simp add: uint_word_of_int take_bit_int_eq_self)

lemma pack_nibbles:
  assumes "0 \<le> a" "a < 16" "0 \<le> b" "b < 16"
  shows "uint (word_of_int (pack_pieces (word_of_int a) (word_of_int b)) :: u8) = 16 * a + b"
proof -
  have a: "uint (word_of_int a :: u8) = a" and b: "uint (word_of_int b :: u8) = b"
    using assms by (simp_all add: uint_u8_of_int)
  have eq: "pack_pieces (word_of_int a) (word_of_int b) = 16 * a + b"
    unfolding pack_pieces_def a b using assms by (simp add: or_nibbles)
  have "0 \<le> 16 * a + b" "16 * a + b < 256" using assms by simp_all
  then show ?thesis unfolding eq by (rule uint_u8_of_int)
qed

lemma pack_nibble_zero:
  assumes "0 \<le> a" "a < 16"
  shows "uint (word_of_int (pack_pieces (word_of_int a) 0) :: u8) = 16 * a"
  using pack_nibbles [OF assms, of 0] by simp

lemma nnLine_full:
  "nnLine pc pt board uninit line = ([Hdr h, Body bs], None) \<Longrightarrow>
   nnHeader board uninit line = Inr h \<and>
   nnBody pc pt board (rec_occupancy h) (rec_pieceCount h) = Inr bs"
  by (auto simp: nnLine_def split: sum.splits)

lemma nnBody_Inr:
  assumes "nnBody pc pt board pcs count = Inr bs" and "unat count = popcount pcs"
  shows "popcount pcs \<le> 32"
    and "bs = take ((popcount pcs + 1) div 2)
               (map (\<lambda>i. word_of_int (pack_pieces
                      ((map (\<lambda>sq. word_of_int (encode_piece pc pt (squares board sq)))
                            (filter (bit pcs) [0..<64]) @ replicate (32 - popcount pcs) 0) ! (i * 2))
                      ((map (\<lambda>sq. word_of_int (encode_piece pc pt (squares board sq)))
                            (filter (bit pcs) [0..<64]) @ replicate (32 - popcount pcs) 0) ! (i * 2 + 1))))
                    [0..<16])"
proof -
  show le: "popcount pcs \<le> 32"
  proof (rule ccontr)
    assume "\<not> popcount pcs \<le> 32"
    then have "typesLoop pc pt board pcs 0 (replicate 32 0) = Inl OutOfBounds"
      by (intro typesLoop_overflow) simp_all
    with assms(1) show False by (simp add: nnBody_def)
  qed
  then have "typesLoop pc pt board pcs 0 (replicate 32 0) =
       Inr (map (\<lambda>sq. word_of_int (encode_piece pc pt (squares board sq)))
                (filter (bit pcs) [0..<64]) @ replicate (32 - popcount pcs) 0)"
    by (subst typesLoop_spec) simp_all
  with assms show "bs = take ((popcount pcs + 1) div 2)
               (map (\<lambda>i. word_of_int (pack_pieces
                      ((map (\<lambda>sq. word_of_int (encode_piece pc pt (squares board sq)))
                            (filter (bit pcs) [0..<64]) @ replicate (32 - popcount pcs) 0) ! (i * 2))
                      ((map (\<lambda>sq. word_of_int (encode_piece pc pt (squares board sq)))
                            (filter (bit pcs) [0..<64]) @ replicate (32 - popcount pcs) 0) ! (i * 2 + 1))))
                    [0..<16])"
    by (simp add: nnBody_def Let_def split: if_splits)
qed

lemma nnLine_total:
  assumes "nnHeader board uninit line = Inr h" and "popcount (rec_occupancy h) \<le> 32"
  shows "\<exists>bs. nnLine pc pt board uninit line = ([Hdr h, Body bs], None)"
proof -
  have "typesLoop pc pt board (rec_occupancy h) 0 (replicate 32 0) =
       Inr (map (\<lambda>sq. word_of_int (encode_piece pc pt (squares board sq)))
                (filter (bit (rec_occupancy h)) [0..<64]) @ replicate (32 - popcount (rec_occupancy h)) 0)"
    using assms(2) by (subst typesLoop_spec) simp_all
  moreover have "(unat (rec_pieceCount h) + 1) div 2 \<le> 16"
    using nnHeader_count [OF assms(1)] assms(2) by simp
  ultimately show ?thesis
    using assms(1) by (simp add: nnLine_def nnBody_def Let_def)
qed

text \<open>
  One line: for a record written in full, with \<open>n\<close> the piece count byte and the
  occupied squares in ascending order, the order in which the loop removes the least
  significant bit, the body is the packing of the codes.
\<close>

lemma nnLine_body_packing:
  assumes "nnLine pc pt board uninit line = ([Hdr h, Body bs], None)"
    and "\<forall>sq \<in> set (filter (bit (rec_occupancy h)) [0..<64]).
           pc (squares board sq) \<in> {0, 1} \<and> pt (squares board sq) \<in> {0..5}"
  shows "let sqs = filter (bit (rec_occupancy h)) [0..<64];
             n = unat (rec_pieceCount h);
             code = (\<lambda>k. 8 * pc (squares board (sqs ! k)) + pt (squares board (sqs ! k)))
         in length sqs = n \<and>
            length bs = (n + 1) div 2 \<and> n \<le> 2 * length bs \<and> 2 * length bs \<le> n + 1 \<and>
            (\<forall>i < length bs.
               uint (bs ! i) = 16 * code (2 * i) + (if 2 * i + 1 < n then code (2 * i + 1) else 0))"
proof -
  define sqs where "sqs = filter (bit (rec_occupancy h)) [0..<64]"
  define n where "n = unat (rec_pieceCount h)"
  define f where "f = (\<lambda>sq. word_of_int (encode_piece pc pt (squares board sq)) :: u8)"
  define types where "types = map f sqs @ replicate (32 - n) 0"
  from nnLine_full [OF assms(1)] have
    hd: "nnHeader board uninit line = Inr h" and
    bd: "nnBody pc pt board (rec_occupancy h) (rec_pieceCount h) = Inr bs" by simp_all
  have n: "n = popcount (rec_occupancy h)"
    using nnHeader_count [OF hd] by (simp add: n_def)
  have len: "length sqs = n" by (simp add: sqs_def n popcount_def)
  from nnBody_Inr [OF bd] n have n32: "n \<le> 32" and
    bs: "bs = take ((n + 1) div 2)
               (map (\<lambda>i. word_of_int (pack_pieces (types ! (i * 2)) (types ! (i * 2 + 1)))) [0..<16])"
    by (simp_all add: n_def types_def f_def sqs_def)
  from n32 have lbs: "length bs = (n + 1) div 2" by (simp add: bs)
  have range: "0 \<le> encode_piece pc pt (squares board (sqs ! k)) \<and>
               encode_piece pc pt (squares board (sqs ! k)) < 16" if "k < n" for k
  proof -
    from that len have "sqs ! k \<in> set sqs" by simp
    with assms(2) have "pc (squares board (sqs ! k)) \<in> {0, 1}" "pt (squares board (sqs ! k)) \<in> {0..5}"
      by (simp_all add: sqs_def)
    then show ?thesis by (auto simp: encode_piece_def)
  qed
  have byte: "uint (bs ! i) = 16 * encode_piece pc pt (squares board (sqs ! (2 * i))) +
        (if 2 * i + 1 < n then encode_piece pc pt (squares board (sqs ! (2 * i + 1))) else 0)"
    if i: "i < length bs" for i
  proof -
    from i lbs n32 have i16: "i < 16" and i2: "2 * i < n" by simp_all
    have b: "bs ! i = word_of_int (pack_pieces (types ! (i * 2)) (types ! (i * 2 + 1)))"
      using i i16 lbs by (simp add: bs)
    have t0: "types ! (i * 2) = f (sqs ! (2 * i))"
      using i2 len by (simp add: types_def nth_append mult.commute)
    show ?thesis
    proof (cases "2 * i + 1 < n")
      case True
      then have t1: "types ! (i * 2 + 1) = f (sqs ! (2 * i + 1))"
        using len by (simp add: types_def nth_append mult.commute)
      from range [OF i2] range [OF True] True show ?thesis
        unfolding b t0 t1 f_def by (simp add: pack_nibbles)
    next
      case False
      then have t1: "types ! (i * 2 + 1) = 0"
        using len i16 n32 by (simp add: types_def nth_append mult.commute)
      from range [OF i2] False show ?thesis
        unfolding b t0 t1 f_def by (simp add: pack_nibble_zero)
    qed
  qed
  have "n \<le> 2 * length bs" "2 * length bs \<le> n + 1" using lbs by simp_all
  with len lbs byte show ?thesis
    unfolding Let_def sqs_def [symmetric] n_def [symmetric]
    by (simp add: encode_piece_def)
qed

lemma nnLine_cases:
  "(\<exists>e. nnHeader board u line = Inl e \<and> nnLine pc pt board u line = ([], Some e)) \<or>
   (\<exists>h e. nnHeader board u line = Inr h \<and> nnLine pc pt board u line = ([Hdr h], Some e)) \<or>
   (\<exists>h bs. nnHeader board u line = Inr h \<and> nnLine pc pt board u line = ([Hdr h, Body bs], None))"
  by (auto simp: nnLine_def split: sum.splits)

lemma nnLoop_at:
  "fst (nnLoop pc pt parse uninit board k lines) = xs @ Hdr h # ys \<Longrightarrow>
   \<exists>pre line. prefix (pre @ [line]) lines \<and>
     nnHeader (foldl parse board (pre @ [line])) (uninit (k + length pre)) line = Inr h \<and>
     (\<forall>bs. nnLine pc pt (foldl parse board (pre @ [line])) (uninit (k + length pre)) line =
              ([Hdr h, Body bs], None) \<longrightarrow> (\<exists>ys'. ys = Body bs # ys'))"
proof (induction lines arbitrary: board k xs)
  case Nil
  then show ?case by simp
next
  case (Cons l ls)
  let ?b = "parse board l"
  from nnLine_cases [of ?b "uninit k" l pc pt]
  consider
    (fault) e where "nnLine pc pt ?b (uninit k) l = ([], Some e)"
  | (header) h1 e where "nnHeader ?b (uninit k) l = Inr h1"
      "nnLine pc pt ?b (uninit k) l = ([Hdr h1], Some e)"
  | (full) h1 b1 where "nnHeader ?b (uninit k) l = Inr h1"
      "nnLine pc pt ?b (uninit k) l = ([Hdr h1, Body b1], None)"
    by blast
  then show ?case
  proof cases
    case fault
    with Cons.prems show ?thesis by simp
  next
    case header
    with Cons.prems have "xs = []" "h = h1" "ys = []"
      by (auto simp: Cons_eq_append_conv)
    with header have "prefix ([] @ [l]) (l # ls) \<and>
       nnHeader (foldl parse board ([] @ [l])) (uninit (k + length ([]::string list))) l = Inr h \<and>
       (\<forall>bs. nnLine pc pt (foldl parse board ([] @ [l])) (uninit (k + length ([]::string list))) l =
              ([Hdr h, Body bs], None) \<longrightarrow> (\<exists>ys'. ys = Body bs # ys'))"
      by simp
    then show ?thesis by blast
  next
    case full
    obtain out' e' where rest: "nnLoop pc pt parse uninit ?b (Suc k) ls = (out', e')"
      by (cases "nnLoop pc pt parse uninit ?b (Suc k) ls")
    with full Cons.prems have eq: "xs @ Hdr h # ys = Hdr h1 # Body b1 # out'"
      by simp
    show ?thesis
    proof (cases xs)
      case Nil
      with eq have "h = h1" "ys = Body b1 # out'" by simp_all
      with full have "prefix ([] @ [l]) (l # ls) \<and>
       nnHeader (foldl parse board ([] @ [l])) (uninit (k + length ([]::string list))) l = Inr h \<and>
       (\<forall>bs. nnLine pc pt (foldl parse board ([] @ [l])) (uninit (k + length ([]::string list))) l =
              ([Hdr h, Body bs], None) \<longrightarrow> (\<exists>ys'. ys = Body bs # ys'))"
        by simp
      then show ?thesis by blast
    next
      case (Cons x xs1)
      show ?thesis
      proof (cases xs1)
        case Nil
        with Cons eq show ?thesis by simp
      next
        case (Cons y xs2)
        with \<open>xs = x # xs1\<close> eq have "fst (nnLoop pc pt parse uninit ?b (Suc k) ls) = xs2 @ Hdr h # ys"
          using rest by simp
        from Cons.IH [OF this] obtain pre line where
          p: "prefix (pre @ [line]) ls" and
          hd: "nnHeader (foldl parse ?b (pre @ [line])) (uninit (Suc k + length pre)) line = Inr h" and
          bd: "\<forall>bs. nnLine pc pt (foldl parse ?b (pre @ [line])) (uninit (Suc k + length pre)) line =
              ([Hdr h, Body bs], None) \<longrightarrow> (\<exists>ys'. ys = Body bs # ys')"
          by blast
        have "prefix ((l # pre) @ [line]) (l # ls) \<and>
          nnHeader (foldl parse board ((l # pre) @ [line])) (uninit (k + length (l # pre))) line = Inr h \<and>
          (\<forall>bs. nnLine pc pt (foldl parse board ((l # pre) @ [line])) (uninit (k + length (l # pre))) line =
              ([Hdr h, Body bs], None) \<longrightarrow> (\<exists>ys'. ys = Body bs # ys'))"
          using p hd bd by simp
        then show ?thesis by blast
      qed
    qed
  qed
qed

lemma crowded_header: "nnHeader crowdedBoard 77 crowdedLine = Inr crowdedHeader"
  by code_simp

lemma crowded_count: "popcount (rec_occupancy crowdedHeader) = 33"
  by code_simp

lemma nnLine_overflow:
  assumes "nnHeader board u line = Inr h" and "32 < popcount (rec_occupancy h)"
  shows "nnLine pc pt board u line = ([Hdr h], Some OutOfBounds)"
proof -
  have "typesLoop pc pt board (rec_occupancy h) 0 (replicate 32 0) = Inl OutOfBounds"
    using assms(2) by (intro typesLoop_overflow) simp_all
  with assms(1) show ?thesis by (simp add: nnLine_def nnBody_def)
qed

lemma buildNNBook_at:
  assumes "fst (buildNNBook pc pt parse uninit board0 fin fout) = xs @ Hdr h # ys"
  shows "\<exists>content pre line. fin = Some content \<and> prefix (pre @ [line]) (readLines content) \<and>
     nnHeader (foldl parse board0 (pre @ [line])) (uninit (length pre)) line = Inr h \<and>
     (\<forall>bs. nnLine pc pt (foldl parse board0 (pre @ [line])) (uninit (length pre)) line =
              ([Hdr h, Body bs], None) \<longrightarrow> (\<exists>ys'. ys = Body bs # ys'))"
proof -
  from assms obtain content where fin: "fin = Some content"
    and loop: "fst (nnLoop pc pt parse uninit board0 0 (readLines content)) = xs @ Hdr h # ys"
    by (auto simp: buildNNBook_def split: option.splits if_splits list.splits sum.splits)
  from nnLoop_at [OF loop] fin show ?thesis by auto
qed

text \<open>
  C2, as amended: wherever buildNNBook has written a header whose piece count \<open>n\<close> is
  at most 32, the body follows it at once. The header's occupancy is that of the board
  parsed from the header's line, and where every occupied square of that board has
  colour 0 or 1 and piece type 0 to 5, the body has \<open>(n + 1) div 2\<close> bytes, the least
  number of bytes that hold \<open>n\<close> nibbles; byte \<open>i\<close> holds the code of occupied
  square \<open>2 i\<close>, in ascending order of squares, in its high nibble and the code of
  square \<open>2 i + 1\<close> in its low nibble, zero when \<open>n\<close> is odd and the byte is the
  last. A code is eight times the colour plus the piece type.
\<close>

theorem nnbook_body_packing:
  assumes "fst (buildNNBook pc pt parse uninit board0 fin fout) = xs @ Hdr h # ys"
    and "unat (rec_pieceCount h) \<le> 32"
  shows "\<exists>content pre line bs ys'.
           fin = Some content \<and> prefix (pre @ [line]) (readLines content) \<and> ys = Body bs # ys' \<and>
           (let board = foldl parse board0 (pre @ [line]);
                sqs = filter (bit (rec_occupancy h)) [0..<64];
                n = unat (rec_pieceCount h);
                code = (\<lambda>k. 8 * pc (squares board (sqs ! k)) + pt (squares board (sqs ! k)))
            in rec_occupancy h = colours board WHITE OR colours board BLACK \<and>
               ((\<forall>sq \<in> set sqs. pc (squares board sq) \<in> {0, 1} \<and> pt (squares board sq) \<in> {0..5}) \<longrightarrow>
                  length sqs = n \<and>
                  length bs = (n + 1) div 2 \<and> n \<le> 2 * length bs \<and> 2 * length bs \<le> n + 1 \<and>
                  (\<forall>i < length bs.
                     uint (bs ! i) =
                       16 * code (2 * i) + (if 2 * i + 1 < n then code (2 * i + 1) else 0))))"
proof -
  from buildNNBook_at [OF assms(1)] obtain content pre line where
    fin: "fin = Some content" and p: "prefix (pre @ [line]) (readLines content)" and
    hd: "nnHeader (foldl parse board0 (pre @ [line])) (uninit (length pre)) line = Inr h" and
    nxt: "\<forall>bs. nnLine pc pt (foldl parse board0 (pre @ [line])) (uninit (length pre)) line =
              ([Hdr h, Body bs], None) \<longrightarrow> (\<exists>ys'. ys = Body bs # ys')"
    by blast
  let ?board = "foldl parse board0 (pre @ [line])"
  from assms(2) nnHeader_count [OF hd] have "popcount (rec_occupancy h) \<le> 32" by simp
  from nnLine_total [OF hd this] obtain bs where
    full: "nnLine pc pt ?board (uninit (length pre)) line = ([Hdr h, Body bs], None)"
    by blast
  with nxt obtain ys' where ys: "ys = Body bs # ys'" by blast
  have occ: "rec_occupancy h = colours ?board WHITE OR colours ?board BLACK"
    using nnHeader_Inr(1) [OF hd] .
  have pack: "let sqs = filter (bit (rec_occupancy h)) [0..<64];
             n = unat (rec_pieceCount h);
             code = (\<lambda>k. 8 * pc (squares ?board (sqs ! k)) + pt (squares ?board (sqs ! k)))
         in length sqs = n \<and>
            length bs = (n + 1) div 2 \<and> n \<le> 2 * length bs \<and> 2 * length bs \<le> n + 1 \<and>
            (\<forall>i < length bs.
               uint (bs ! i) = 16 * code (2 * i) + (if 2 * i + 1 < n then code (2 * i + 1) else 0))"
    if "\<forall>sq \<in> set (filter (bit (rec_occupancy h)) [0..<64]).
           pc (squares ?board sq) \<in> {0, 1} \<and> pt (squares ?board sq) \<in> {0..5}"
    using nnLine_body_packing [OF full that] .
  from fin p ys occ pack show ?thesis
    unfolding Let_def by blast
qed

theorem nnbook_body_packing_witness:
  "fst (buildNNBook examplePc examplePt (\<lambda>b l. exampleBoard) (\<lambda>k. 77) exampleBoard
         (Some (exampleLine @ exampleLine)) True) =
     [] @ Hdr exampleHeader # [Body [93, 16], Hdr exampleHeader, Body [93, 16]] \<and>
   unat (rec_pieceCount exampleHeader) \<le> 32 \<and>
   list_all (\<lambda>sq. examplePc (squares exampleBoard sq) \<in> {0, 1} \<and>
                   examplePt (squares exampleBoard sq) \<in> {0..5})
     (filter (bit (rec_occupancy exampleHeader)) [0..<64]) \<and>
   filter (bit (rec_occupancy exampleHeader)) [0..<64] = [0, 2, 8] \<and>
   unat (rec_pieceCount exampleHeader) = 3 \<and>
   length [93, 16 :: u8] = (3 + 1) div 2 \<and>
   uint ([93, 16 :: u8] ! 0) =
     16 * (8 * examplePc (squares exampleBoard 0) + examplePt (squares exampleBoard 0)) +
     (8 * examplePc (squares exampleBoard 2) + examplePt (squares exampleBoard 2)) \<and>
   uint ([93, 16 :: u8] ! 1) =
     16 * (8 * examplePc (squares exampleBoard 8) + examplePt (squares exampleBoard 8)) + 0"
proof -
  have run: "fst (buildNNBook examplePc examplePt (\<lambda>b l. exampleBoard) (\<lambda>k. 77) exampleBoard
         (Some (exampleLine @ exampleLine)) True) =
     [] @ Hdr exampleHeader # [Body [93, 16], Hdr exampleHeader, Body [93, 16]]"
    by code_simp
  have le: "unat (rec_pieceCount exampleHeader) \<le> 32"
    by code_simp
  have codes: "list_all (\<lambda>sq. examplePc (squares exampleBoard sq) \<in> {0, 1} \<and>
                   examplePt (squares exampleBoard sq) \<in> {0..5})
     (filter (bit (rec_occupancy exampleHeader)) [0..<64])"
    by code_simp
  have sqs: "filter (bit (rec_occupancy exampleHeader)) [0..<64] = [0, 2, 8]"
    by code_simp
  have n: "unat (rec_pieceCount exampleHeader) = 3"
    by code_simp
  from codes have ball: "\<forall>sq \<in> set (filter (bit (rec_occupancy exampleHeader)) [0..<64]).
      examplePc (squares exampleBoard sq) \<in> {0, 1} \<and>
      examplePt (squares exampleBoard sq) \<in> {0..5}"
    by (simp only: list_all_iff)
  from nnbook_body_packing [OF run le] obtain pre :: "string list" and line :: string
    and bs ys' where
    ys: "[Body [93, 16], Hdr exampleHeader, Body [93, 16]] = Body bs # ys'" and
    body: "let board = foldl (\<lambda>b l. exampleBoard) exampleBoard (pre @ [line]);
                sqs = filter (bit (rec_occupancy exampleHeader)) [0..<64];
                n = unat (rec_pieceCount exampleHeader);
                code = (\<lambda>k. 8 * examplePc (squares board (sqs ! k)) +
                               examplePt (squares board (sqs ! k)))
            in rec_occupancy exampleHeader = colours board WHITE OR colours board BLACK \<and>
               ((\<forall>sq \<in> set sqs. examplePc (squares board sq) \<in> {0, 1} \<and>
                                  examplePt (squares board sq) \<in> {0..5}) \<longrightarrow>
                  length sqs = n \<and>
                  length bs = (n + 1) div 2 \<and> n \<le> 2 * length bs \<and> 2 * length bs \<le> n + 1 \<and>
                  (\<forall>i < length bs.
                     uint (bs ! i) =
                       16 * code (2 * i) + (if 2 * i + 1 < n then code (2 * i + 1) else 0)))"
    by (elim exE conjE)
  from ys have bs: "bs = [93, 16]" by simp
  have board: "foldl (\<lambda>b l. exampleBoard) exampleBoard (pre @ [line]) = exampleBoard"
    by simp
  from body ball have pack: "length [93, 16 :: u8] = (3 + 1) div 2 \<and>
     (\<forall>i < length [93, 16 :: u8].
          uint ([93, 16 :: u8] ! i) =
            16 * (8 * examplePc (squares exampleBoard ([0, 2, 8] ! (2 * i))) +
                  examplePt (squares exampleBoard ([0, 2, 8] ! (2 * i)))) +
            (if 2 * i + 1 < 3
             then 8 * examplePc (squares exampleBoard ([0, 2, 8] ! (2 * i + 1))) +
                  examplePt (squares exampleBoard ([0, 2, 8] ! (2 * i + 1)))
             else 0))"
    unfolding Let_def board bs sqs n by blast
  from pack have "uint ([93, 16 :: u8] ! 0) =
     16 * (8 * examplePc (squares exampleBoard 0) + examplePt (squares exampleBoard 0)) +
     (8 * examplePc (squares exampleBoard 2) + examplePt (squares exampleBoard 2))"
    by (elim conjE allE [of _ 0]) simp
  moreover from pack have "uint ([93, 16 :: u8] ! 1) =
     16 * (8 * examplePc (squares exampleBoard 8) + examplePt (squares exampleBoard 8)) + 0"
    by (elim conjE allE [of _ 1]) simp
  ultimately show ?thesis using run le codes sqs n pack by blast
qed

text \<open>
  C2 as stated fails for a position of more than 32 pieces: the header is written with
  piece count 33, then the loop stores past \<^verbatim>\<open>types[32]\<close> and no packing follows.
\<close>

theorem nnbook_crowded_counterexample:
  "buildNNBook examplePc examplePt (\<lambda>b l. crowdedBoard) (\<lambda>k. 77) exampleBoard
     (Some crowdedLine) True = ([Hdr crowdedHeader], Some OutOfBounds) \<and>
   unat (rec_pieceCount crowdedHeader) = 33"
proof -
  have l: "readLines crowdedLine = [crowdedLine]" by code_simp
  have "nnLine examplePc examplePt crowdedBoard 77 crowdedLine =
      ([Hdr crowdedHeader], Some OutOfBounds)"
    using crowded_header crowded_count by (intro nnLine_overflow) simp_all
  then have "buildNNBook examplePc examplePt (\<lambda>b l. crowdedBoard) (\<lambda>k. 77) exampleBoard
     (Some crowdedLine) True = ([Hdr crowdedHeader], Some OutOfBounds)"
    by (simp add: buildNNBook_def l)
  moreover have "unat (rec_pieceCount crowdedHeader) = 33" by code_simp
  ultimately show ?thesis by simp
qed







section \<open>Properties of handleCommandLine\<close>

text \<open>
  C8, as amended: when \<^verbatim>\<open>argv[1]\<close> is absent or is none of the four commands, a build
  without \<^verbatim>\<open>TUNE\<close> falls through: no pipeline, no output, no exit. A build with
  \<^verbatim>\<open>TUNE\<close> runs the tuner and exits with status 0.
\<close>

theorem dispatch_unrecognised:
  assumes "length argv \<le> 1 \<or> argv ! 1 \<notin> {''bench'', ''filter'', ''nnbook'', ''evalbook''}"
  shows "handleCommandLine TUNE argv = (if TUNE then [Invoke RunTuner, Exit EXIT_SUCCESS] else [])"
  using assms by (auto simp: handleCommandLine_def strEquals_def Let_def)

theorem dispatch_unrecognised_witness:
  "(length [''Ethereal'', ''perft''] \<le> 1 \<or>
      [''Ethereal'', ''perft''] ! 1 \<notin> {''bench'', ''filter'', ''nnbook'', ''evalbook''}) \<and>
   handleCommandLine False [''Ethereal'', ''perft''] = []"
  using dispatch_unrecognised [of "[''Ethereal'', ''perft'']" False] by simp

text \<open>
  C8 as stated fails in a build with \<^verbatim>\<open>TUNE\<close>: without any command the tuner runs
  and the process exits.
\<close>

theorem dispatch_tune_counterexample:
  "handleCommandLine True [''Ethereal''] = [Invoke RunTuner, Exit 0]"
  by code_simp

section \<open>Properties of filterBook\<close>

lemma filterLoop_out:
  "fst (filterLoop E s lines) =
     map fst (filter (\<lambda>(line, s). fst (filterLine E s line)) (zip lines (threadsBefore E s lines)))"
proof (induction lines arbitrary: s)
  case Nil
  then show ?case by simp
next
  case (Cons l ls)
  obtain keep s' where fl: "filterLine E s l = (keep, s')"
    by (cases "filterLine E s l")
  obtain out s'' where lp: "filterLoop E s' ls = (out, s'')"
    by (cases "filterLoop E s' ls")
  from Cons.IH [of s'] lp have "out =
     map fst (filter (\<lambda>(line, s). fst (filterLine E s line)) (zip ls (threadsBefore E s' ls)))"
    by simp
  with fl lp show ?case by simp
qed

lemma subseq_map_fst_filter_zip: "subseq (map fst (filter P (zip xs ys))) xs"
proof -
  have "subseq (map fst (filter P (zip xs ys))) (map fst (zip xs ys))"
    by (intro subseq_map subseq_filter_left)
  moreover have "subseq (map fst (zip xs ys)) xs"
    by (induction xs ys rule: list_induct2') auto
  ultimately show ?thesis by (rule subseq_order.trans)
qed

text \<open>
  C3: what filterBook prints is, in the order of the input, each line as it was read,
  for which the turn of the loop says keep; that is a subsequence of the lines read.
  A turn says keep exactly if the side to move is not in check, more than six pieces
  are on the board, and the static evaluation equals the quiescence value. A position
  in check, or with six pieces or fewer, is rejected before the engine is asked: the
  thread is left as \<^verbatim>\<open>boardFromFEN\<close> left it, whatever the evaluation would say.
\<close>

theorem filterBook_quiet:
  assumes "filterBook E s0 fin = Inr out"
  shows "(\<exists>content. fin = Some content \<and>
            out = map fst (filter (\<lambda>(line, s). fst (filterLine E s line))
                     (zip (readLines content) (threadsBefore E s0 (readLines content)))) \<and>
            subseq out (readLines content)) \<and>
         (\<forall>s line.
            let s1 = e_parse E s line;
                board = e_board E s1;
                count = popcount (colours board WHITE OR colours board BLACK);
                ev = fst (e_eval E s1);
                qs = fst (e_qsearch E (snd (e_eval E s1)))
            in (fst (filterLine E s line) \<longleftrightarrow> kingAttackers board = 0 \<and> 6 < count \<and> ev = qs) \<and>
               (kingAttackers board \<noteq> 0 \<or> count \<le> 6 \<longrightarrow> filterLine E s line = (False, s1)))"
proof -
  from assms obtain content where c: "fin = Some content"
    and o: "out = fst (filterLoop E s0 (readLines content))"
    by (auto simp: filterBook_def split: option.splits)
  have "subseq out (readLines content)"
    unfolding o filterLoop_out by (rule subseq_map_fst_filter_zip)
  with c o have "\<exists>content. fin = Some content \<and>
            out = map fst (filter (\<lambda>(line, s). fst (filterLine E s line))
                     (zip (readLines content) (threadsBefore E s0 (readLines content)))) \<and>
            subseq out (readLines content)"
    by (simp add: filterLoop_out)
  moreover have "\<forall>s line.
            let s1 = e_parse E s line;
                board = e_board E s1;
                count = popcount (colours board WHITE OR colours board BLACK);
                ev = fst (e_eval E s1);
                qs = fst (e_qsearch E (snd (e_eval E s1)))
            in (fst (filterLine E s line) \<longleftrightarrow> kingAttackers board = 0 \<and> 6 < count \<and> ev = qs) \<and>
               (kingAttackers board \<noteq> 0 \<or> count \<le> 6 \<longrightarrow> filterLine E s line = (False, s1))"
    by (auto simp: filterLine_def Let_def split: prod.splits)
  ultimately show ?thesis by blast
qed

theorem filterBook_quiet_witness:
  "filterBook exampleEngine exampleBoard (Some exampleBook) = Inr [quietLine] \<and>
   readLines exampleBook = [exampleLine, quietLine] \<and>
   subseq [quietLine] (readLines exampleBook) \<and>
   (fst (filterLine exampleEngine exampleBoard quietLine) \<longleftrightarrow>
      kingAttackers quietBoard = 0 \<and>
      6 < popcount (colours quietBoard WHITE OR colours quietBoard BLACK) \<and> (10::int) = 10)"
proof -
  have run: "filterBook exampleEngine exampleBoard (Some exampleBook) = Inr [quietLine]"
    by code_simp
  have rd: "readLines exampleBook = [exampleLine, quietLine]"
    by code_simp
  have p: "e_parse exampleEngine exampleBoard quietLine = quietBoard"
    by (simp add: exampleEngine_def quietLine_def)
  from filterBook_quiet [OF run] have
    sub: "subseq [quietLine] (readLines exampleBook)" and
    line: "\<forall>s line.
            let s1 = e_parse exampleEngine s line;
                board = e_board exampleEngine s1;
                count = popcount (colours board WHITE OR colours board BLACK);
                ev = fst (e_eval exampleEngine s1);
                qs = fst (e_qsearch exampleEngine (snd (e_eval exampleEngine s1)))
            in (fst (filterLine exampleEngine s line) \<longleftrightarrow>
                  kingAttackers board = 0 \<and> 6 < count \<and> ev = qs) \<and>
               (kingAttackers board \<noteq> 0 \<or> count \<le> 6 \<longrightarrow>
                  filterLine exampleEngine s line = (False, s1))"
    by auto
  from line [rule_format, of exampleBoard quietLine]
  have "fst (filterLine exampleEngine exampleBoard quietLine) \<longleftrightarrow>
      kingAttackers quietBoard = 0 \<and>
      6 < popcount (colours quietBoard WHITE OR colours quietBoard BLACK) \<and> (10::int) = 10"
    unfolding Let_def p by (simp add: exampleEngine_def)
  with run rd sub show ?thesis by blast
qed

section \<open>Properties of runBenchmark and runEvalBook\<close>

lemma benchSearch_calls:
  "benchSearch W depth i bs st = (cs, st', None) \<Longrightarrow>
   cs = concat (map (block depth) (takeWhile (\<lambda>b. b \<noteq> []) bs))"
proof (induction bs arbitrary: i st cs st')
  case Nil
  then show ?case by simp
next
  case (Cons b bs)
  show ?case
  proof (cases "b = []")
    case True
    with Cons.prems show ?thesis by simp
  next
    case False
    with Cons.prems obtain cs1 st1 where
      "benchSearch W depth (Suc i) bs st1 = (cs1, st', None)" and "cs = block depth b @ cs1"
      by (auto simp: Let_def block_def split: if_splits prod.splits)
    with Cons.IH False show ?thesis by simp
  qed
qed

lemma benchReport_calls:
  "benchReport W i bs st = (cs, f) \<Longrightarrow> \<forall>c \<in> set cs. \<exists>p. c = Printf p"
  by (induction bs arbitrary: i cs f) (auto split: if_splits prod.splits)

lemma clearedAfterSearch_quiet:
  "\<not> list_ex isSearch xs \<Longrightarrow> clearedAfterSearch (xs @ ys) = clearedAfterSearch ys"
  by (induction xs) auto

lemma resetAfterSearch_quiet:
  "\<not> list_ex isSearch xs \<Longrightarrow> resetAfterSearch (xs @ ys) = resetAfterSearch ys"
  by (induction xs) auto

lemma clearedAfterSearch_blocks:
  "clearedAfterSearch (concat (map (block depth) bs) @ ys) = clearedAfterSearch ys"
  by (induction bs) (auto simp: block_def isSearch_def isInitTT_def startsPosition_def)

lemma filter_isInitTT_blocks: "filter isInitTT (concat (map (block depth) bs)) = []"
  by (induction bs) (auto simp: block_def isInitTT_def)

lemma prints_quiet:
  "\<forall>c \<in> set cs. \<exists>p. c = Printf p \<Longrightarrow> \<not> list_ex isSearch cs \<and> filter isInitTT cs = []"
  by (induction cs) (auto simp: isSearch_def isInitTT_def)

lemma runBenchmark_trace:
  assumes "runBenchmark W st0 bench argv = (tr, None)"
  shows "\<exists>depth nthreads megabytes cs2 tl.
           tr = [InitTT megabytes, GetRealTime, CreateThreadPool nthreads] @
                concat (map (block depth) (takeWhile (\<lambda>b. b \<noteq> []) bench)) @
                [Printf Rule] @ cs2 @ [Printf Rule, GetRealTime, tl, Free] \<and>
           (\<forall>c \<in> set cs2. \<exists>p. c = Printf p) \<and> (\<exists>p. tl = Printf p)"
proof -
  from assms obtain depth nthreads megabytes where
    a: "benchArgs argv = Inr (depth, nthreads, megabytes)"
    by (auto simp: runBenchmark_def split: sum.splits)
  from assms a obtain cs1 st where
    s: "benchSearch W depth 0 (bench @ [[]]) st0 = (cs1, st, None)"
    by (auto simp: runBenchmark_def Let_def split: prod.splits option.splits)
  from assms a s obtain cs2 where
    r: "benchReport W 0 (bench @ [[]]) st = (cs2, None)"
    by (auto simp: runBenchmark_def Let_def split: prod.splits option.splits)
  from assms a s r obtain tl where
    t: "tr = [InitTT megabytes, GetRealTime, CreateThreadPool nthreads] @ cs1 @
             [Printf Rule] @ cs2 @ [Printf Rule, GetRealTime, tl, Free]" "\<exists>p. tl = Printf p"
    by (auto simp: runBenchmark_def Let_def split: sum.splits)
  have tw: "takeWhile (\<lambda>b. b \<noteq> []) (bench @ [[]]) = takeWhile (\<lambda>b. b \<noteq> []) bench"
    by (induction bench) auto
  from benchSearch_calls [OF s] tw
  have "cs1 = concat (map (block depth) (takeWhile (\<lambda>b. b \<noteq> []) bench))" by simp
  with t benchReport_calls [OF r] show ?thesis by blast
qed

lemma runBenchmark_discipline:
  assumes "runBenchmark W st0 bench argv = (tr, None)"
  shows "ttDiscipline tr"
proof -
  from runBenchmark_trace [OF assms] obtain depth nthreads megabytes cs2 tl where
    tr: "tr = [InitTT megabytes, GetRealTime, CreateThreadPool nthreads] @
                concat (map (block depth) (takeWhile (\<lambda>b. b \<noteq> []) bench)) @
                [Printf Rule] @ cs2 @ [Printf Rule, GetRealTime, tl, Free]"
    and cs2: "\<forall>c \<in> set cs2. \<exists>p. c = Printf p" and tl: "\<exists>p. tl = Printf p"
    by blast
  from prints_quiet [OF cs2] have q: "\<not> list_ex isSearch cs2" "filter isInitTT cs2 = []"
    by simp_all
  have 1: "length (filter isInitTT tr) = 1"
    using tl q(2) unfolding tr by (auto simp: filter_isInitTT_blocks isInitTT_def)
  have 2: "\<not> list_ex isSearch (takeWhile (\<lambda>c. \<not> isInitTT c) tr)"
    unfolding tr by (simp add: isInitTT_def)
  have "clearedAfterSearch ([Printf Rule] @ cs2 @ [Printf Rule, GetRealTime, tl, Free])"
    using tl q(1) by (auto simp: clearedAfterSearch_quiet isSearch_def)
  then have 3: "clearedAfterSearch tr"
    unfolding tr by (simp add: clearedAfterSearch_blocks isSearch_def)
  from 1 2 3 show ?thesis by (simp add: ttDiscipline_def)
qed

lemma evalLoop_discipline:
  "clearedAfterSearch (evalLoop depth ls @ ys) = clearedAfterSearch ys"
  "resetAfterSearch (evalLoop depth ls @ ys) = resetAfterSearch ys"
  "filter isInitTT (evalLoop depth ls) = []"
  by (induction ls) (auto simp: isSearch_def isInitTT_def startsPosition_def)

lemma runEvalBook_discipline:
  assumes "runEvalBook W book argv = (tr, None)"
  shows "ttDiscipline tr \<and> resetAfterSearch tr"
proof -
  from assms obtain depth nthreads megabytes content tl where
    tr: "tr = [GetRealTime, CreateThreadPool nthreads, InitTT megabytes] @
              evalLoop depth (readLines content) @ [GetRealTime, tl]" and tl: "\<exists>p. tl = Printf p"
    by (auto simp: runEvalBook_def Let_def split: sum.splits option.splits)
  have 1: "length (filter isInitTT tr) = 1"
    using tl unfolding tr by (auto simp: evalLoop_discipline isInitTT_def)
  have 2: "\<not> list_ex isSearch (takeWhile (\<lambda>c. \<not> isInitTT c) tr)"
    unfolding tr by (simp add: isInitTT_def isSearch_def)
  have 3: "clearedAfterSearch tr" "resetAfterSearch tr"
    using tl unfolding tr by (auto simp: evalLoop_discipline isSearch_def)
  from 1 2 3 show ?thesis by (simp add: ttDiscipline_def)
qed

text \<open>
  C6: in a run of runBenchmark and in a run of runEvalBook that reaches its end, the
  transposition table is initialised exactly once, no search comes before that, and
  after every search the table is cleared before it could be initialised again and
  before the next position is parsed or searched; in runEvalBook the thread pool is
  also reset after every search, before the next line.
\<close>

theorem tt_initialised_once_cleared_after_search:
  "(runBenchmark W st0 bench argv = (tr, None) \<longrightarrow> ttDiscipline tr) \<and>
   (runEvalBook W' book argv' = (tr', None) \<longrightarrow> ttDiscipline tr' \<and> resetAfterSearch tr')"
  using runBenchmark_discipline runEvalBook_discipline by blast

theorem tt_initialised_once_cleared_after_search_witness:
  "runBenchmark exampleWorld exampleStats [startFen, startFen] [''Ethereal'', ''bench'', ''1'']
     = (exampleBenchTrace, None) \<and>
   ttDiscipline exampleBenchTrace \<and>
   runEvalBook exampleWorld (Some exampleBook) [''Ethereal'', ''evalbook'', ''book.epd'', ''2'']
     = (exampleEvalTrace, None) \<and>
   ttDiscipline exampleEvalTrace \<and> resetAfterSearch exampleEvalTrace"
proof -
  have b: "runBenchmark exampleWorld exampleStats [startFen, startFen]
      [''Ethereal'', ''bench'', ''1''] = (exampleBenchTrace, None)"
    by code_simp
  have e: "runEvalBook exampleWorld (Some exampleBook)
      [''Ethereal'', ''evalbook'', ''book.epd'', ''2''] = (exampleEvalTrace, None)"
    by code_simp
  from tt_initialised_once_cleared_after_search
    [of exampleWorld exampleStats "[startFen, startFen]" "[''Ethereal'', ''bench'', ''1'']"
        exampleBenchTrace exampleWorld "Some exampleBook"
        "[''Ethereal'', ''evalbook'', ''book.epd'', ''2'']" exampleEvalTrace]
    b e show ?thesis by blast
qed

lemma benchSearch_in_bounds:
  assumes "[] \<in> set bs"
    and "i + length (takeWhile (\<lambda>b. b \<noteq> []) bs) \<le> capacity"
    and "\<forall>k. i \<le> k \<and> k < i + length (takeWhile (\<lambda>b. b \<noteq> []) bs) \<longrightarrow>
           0 \<le> depth \<and> nat depth < length (sr_values (w_search W k))"
  shows "snd (snd (benchSearch W depth i bs st)) = None"
  using assms
proof (induction bs arbitrary: i st)
  case Nil
  then show ?case by simp
next
  case (Cons b bs)
  show ?case
  proof (cases "b = []")
    case True
    then show ?thesis by simp
  next
    case False
    with Cons.prems have i: "i < capacity" and d: "0 \<le> depth" "nat depth < length (sr_values (w_search W i))"
      and rest: "[] \<in> set bs" "Suc i + length (takeWhile (\<lambda>b. b \<noteq> []) bs) \<le> capacity"
        "\<forall>k. Suc i \<le> k \<and> k < Suc i + length (takeWhile (\<lambda>b. b \<noteq> []) bs) \<longrightarrow>
           0 \<le> depth \<and> nat depth < length (sr_values (w_search W k))"
      by auto
    let ?st2 = "st\<lparr>bestMoves := (bestMoves st)(i := sr_best (w_search W i)),
                 ponderMoves := (ponderMoves st)(i := sr_ponder (w_search W i)),
                 scores := (scores st)(i := sr_values (w_search W i) ! nat depth),
                 times := (times st)(i := w_tsub W (w_now W (2 * i + 2)) (w_now W (2 * i + 1))),
                 nodes := (nodes st)(i := sr_nodes (w_search W i))\<rparr>"
    obtain cs st' f where r: "benchSearch W depth (Suc i) bs ?st2 = (cs, st', f)"
      by (cases "benchSearch W depth (Suc i) bs ?st2") auto
    with Cons.IH [OF rest, of ?st2] have "f = None" by simp
    with r False i d show ?thesis
      by (simp add: Let_def)
  qed
qed

lemma benchReport_in_bounds:
  assumes "[] \<in> set bs" and "i + length (takeWhile (\<lambda>b. b \<noteq> []) bs) \<le> capacity"
  shows "snd (benchReport W i bs st) = None"
  using assms
proof (induction bs arbitrary: i)
  case Nil
  then show ?case by simp
next
  case (Cons b bs)
  show ?case
  proof (cases "b = []")
    case True
    then show ?thesis by simp
  next
    case False
    with Cons.prems have i: "i < capacity"
      and rest: "[] \<in> set bs" "Suc i + length (takeWhile (\<lambda>b. b \<noteq> []) bs) \<le> capacity"
      by auto
    obtain cs f where r: "benchReport W (Suc i) bs st = (cs, f)"
      by (cases "benchReport W (Suc i) bs st") auto
    with Cons.IH [OF rest] have "f = None" by simp
    with r False i show ?thesis by simp
  qed
qed

lemma benchTotal_in_bounds:
  assumes "[] \<in> set bs" and "i + length (takeWhile (\<lambda>b. b \<noteq> []) bs) \<le> capacity"
  shows "\<exists>t. benchTotal i bs st acc = Inr t"
  using assms
proof (induction bs arbitrary: i acc)
  case Nil
  then show ?case by simp
next
  case (Cons b bs)
  show ?case
  proof (cases "b = []")
    case True
    then show ?thesis by simp
  next
    case False
    with Cons.prems have i: "i < capacity"
      and rest: "[] \<in> set bs" "Suc i + length (takeWhile (\<lambda>b. b \<noteq> []) bs) \<le> capacity"
      by auto
    from Cons.IH [OF rest] False i show ?thesis by simp
  qed
qed

lemma takeWhile_sentinel:
  "takeWhile (\<lambda>b. b \<noteq> []) (bench @ [[]]) = takeWhile (\<lambda>b. b \<noteq> []) bench"
  by (induction bench) auto

lemma benchArgs_fault: "benchArgs argv = Inl e \<Longrightarrow> e = IntOverflow"
  by (auto simp: benchArgs_def argInt_def Let_def split: sum.splits if_splits)

text \<open>
  C10, as amended: when the suite has at most 256 positions before the empty string and
  the depth is an index of \<^verbatim>\<open>threads->info->values\<close> after every search, no index leaves
  its array in the search loop or in the two loops that report: the five arrays of
  capacity 256, \<^verbatim>\<open>Benchmarks\<close> and \<^verbatim>\<open>values\<close>. The run then reaches its end, unless an
  argument does not fit an \<^verbatim>\<open>int\<close>.
\<close>

theorem bench_arrays_in_bounds:
  assumes "length (takeWhile (\<lambda>b. b \<noteq> []) bench) \<le> 256"
    and "\<forall>depth nthreads megabytes. benchArgs argv = Inr (depth, nthreads, megabytes) \<longrightarrow>
           (\<forall>k < length (takeWhile (\<lambda>b. b \<noteq> []) bench).
              0 \<le> depth \<and> nat depth < length (sr_values (w_search W k)))"
  shows "snd (runBenchmark W st0 bench argv) \<noteq> Some OutOfBounds \<and>
         (benchArgs argv \<noteq> Inl IntOverflow \<longrightarrow> snd (runBenchmark W st0 bench argv) = None)"
proof (cases "benchArgs argv")
  case (Inl e)
  with benchArgs_fault [OF Inl] show ?thesis
    by (simp add: runBenchmark_def)
next
  case (Inr a)
  then obtain depth nthreads megabytes where a: "benchArgs argv = Inr (depth, nthreads, megabytes)"
    by (cases a) auto
  let ?B = "bench @ [[]]"
  have sent: "[] \<in> set ?B" by simp
  have cap: "0 + length (takeWhile (\<lambda>b. b \<noteq> []) ?B) \<le> capacity"
    using assms(1) by (simp add: takeWhile_sentinel capacity_def)
  have dep: "\<forall>k. 0 \<le> k \<and> k < 0 + length (takeWhile (\<lambda>b. b \<noteq> []) ?B) \<longrightarrow>
           0 \<le> depth \<and> nat depth < length (sr_values (w_search W k))"
    using assms(2) a by (simp add: takeWhile_sentinel)
  obtain cs1 st f1 where s: "benchSearch W depth 0 ?B st0 = (cs1, st, f1)"
    by (cases "benchSearch W depth 0 ?B st0") auto
  with benchSearch_in_bounds [OF sent cap dep, of st0] have f1: "f1 = None" by simp
  obtain cs2 f2 where r: "benchReport W 0 ?B st = (cs2, f2)"
    by (cases "benchReport W 0 ?B st") auto
  with benchReport_in_bounds [OF sent cap, of W st] have f2: "f2 = None" by simp
  from benchTotal_in_bounds [OF sent cap, of st 0] obtain t where
    t: "benchTotal 0 ?B st 0 = Inr t" by blast
  from a s r t f1 f2 have "snd (runBenchmark W st0 bench argv) = None"
    by (simp add: runBenchmark_def Let_def)
  then show ?thesis by simp
qed

theorem bench_arrays_in_bounds_witness:
  "length (takeWhile (\<lambda>b. b \<noteq> []) [startFen, startFen]) \<le> 256 \<and>
   benchArgs [''Ethereal'', ''bench'', ''1''] = Inr (1, 1, 16) \<and>
   snd (runBenchmark exampleWorld exampleStats [startFen, startFen] [''Ethereal'', ''bench'', ''1'']) = None"
proof -
  have n: "length (takeWhile (\<lambda>b. b \<noteq> []) [startFen, startFen]) \<le> 256"
    by code_simp
  have a: "benchArgs [''Ethereal'', ''bench'', ''1''] = Inr (1, 1, 16)"
    by code_simp
  have d: "\<forall>depth nthreads megabytes.
      benchArgs [''Ethereal'', ''bench'', ''1''] = Inr (depth, nthreads, megabytes) \<longrightarrow>
           (\<forall>k < length (takeWhile (\<lambda>b. b \<noteq> []) [startFen, startFen]).
              0 \<le> depth \<and> nat depth < length (sr_values (w_search exampleWorld k)))"
    unfolding a by (simp add: exampleWorld_def)
  from bench_arrays_in_bounds [OF n d, of exampleStats] a n show ?thesis by simp
qed

text \<open>
  C10 as stated fails on \<^verbatim>\<open>scores[i] = threads->info->values[depth]\<close> in the search
  loop: with one position and the command \<^verbatim>\<open>bench -1\<close> the index is -1.
\<close>

theorem bench_depth_counterexample:
  "length (takeWhile (\<lambda>b. b \<noteq> []) [startFen]) \<le> 256 \<and>
   runBenchmark exampleWorld exampleStats [startFen] [''Ethereal'', ''bench'', ''-1''] =
     ([InitTT 16, GetRealTime, CreateThreadPool 1, GetRealTime, BoardFromFEN startFen,
       GetBestMove (- 1)], Some OutOfBounds)"
  by code_simp

section \<open>The aggregate line of runBenchmark\<close>

















end
